theory Spec2Isabelle
  imports Complex_Main "HOL-Library.Sublist" "HOL-Library.AList"
begin

section \<open>The Python values the script works on\<close>

text \<open>
  A Python \<open>str\<close> is a sequence of Unicode code points, and \<open>len\<close>, indexing and
  \<open>split\<close> count code points; a character is its code point.
\<close>

type_synonym pychar = nat
type_synonym pystr = "pychar list"

definition ascii :: "string \<Rightarrow> pystr" where
  "ascii s = map of_char s"

definition ch :: "char \<Rightarrow> pychar" where
  "ch c = of_char c"

text \<open>The exceptions that the operations used by \<open>filter.py\<close> can raise.\<close>

datatype error = IndexError | KeyError | ZeroDivisionError | ValueError

text \<open>
  \<open>str.isspace\<close> on one character, which is also what \<open>split()\<close>, \<open>strip()\<close> and the
  pattern \<open>\s\<close> of a \<open>str\<close> regular expression use: the code points U+0009..U+000D,
  U+001C..U+0020, U+0085, U+00A0, U+1680, U+2000..U+200A, U+2028, U+2029, U+202F, U+205F
  and U+3000.
\<close>

definition isspace :: "pychar \<Rightarrow> bool" where
  "isspace c \<longleftrightarrow>
     (9 \<le> c \<and> c \<le> 13) \<or> (28 \<le> c \<and> c \<le> 32) \<or> c = 133 \<or> c = 160 \<or> c = 5760 \<or>
     (8192 \<le> c \<and> c \<le> 8202) \<or> c = 8232 \<or> c = 8233 \<or> c = 8239 \<or> c = 8287 \<or> c = 12288"

text \<open>
  What the script takes from the Python runtime without defining it: the Unicode tables
  behind \<open>str.isupper\<close> and \<open>str.isdigit\<close> on one character, and the true division
  \<open>x / y\<close> by a float, which rounds (a float is the real number it denotes). They are
  parameters of the model.
\<close>

record runtime =
  isupper :: "pychar \<Rightarrow> bool"
  isdigit :: "pychar \<Rightarrow> bool"
  truediv :: "real \<Rightarrow> real \<Rightarrow> real"

text \<open>
  What the model takes for granted of \<open>x / y\<close> with a float divisor: the operands are
  converted to binary64 and divided, and both steps round to nearest. Zero divided is
  zero; a quotient whose exact value lies in the normal range of binary64 is within
  the relative error \<open>2 ^ -50\<close> of it; and for a positive divisor the quotient does not
  decrease when the dividend grows.
\<close>

definition ieee_division :: "(real \<Rightarrow> real \<Rightarrow> real) \<Rightarrow> bool" where
  "ieee_division dv \<longleftrightarrow>
     (\<forall>b. b \<noteq> 0 \<longrightarrow> dv 0 b = 0) \<and>
     (\<forall>a b. b \<noteq> 0 \<and> 1 / 2 ^ 1022 \<le> \<bar>a / b\<bar> \<and> \<bar>a / b\<bar> \<le> 2 ^ 1023 \<longrightarrow>
            \<bar>dv a b - a / b\<bar> \<le> \<bar>a / b\<bar> / 2 ^ 50) \<and>
     (\<forall>a a' b. 0 < b \<and> a \<le> a' \<longrightarrow> dv a b \<le> dv a' b)"

text \<open>
  The runtime used to evaluate the model on ASCII inputs: the uppercase letters and the
  digits of ASCII, and the exact quotient.
\<close>

definition ascii_runtime :: runtime where
  "ascii_runtime =
     \<lparr>isupper = (\<lambda>c. 65 \<le> c \<and> c \<le> 90),
      isdigit = (\<lambda>c. 48 \<le> c \<and> c \<le> 57),
      truediv = (\<lambda>a b. a / b)\<rparr>"

subsection \<open>\<open>str\<close> methods\<close>

definition py_lstrip :: "pystr \<Rightarrow> pystr" where
  "py_lstrip s = dropWhile isspace s"

definition py_rstrip :: "pystr \<Rightarrow> pystr" where
  "py_rstrip s = rev (dropWhile isspace (rev s))"

definition py_strip :: "pystr \<Rightarrow> pystr" where
  "py_strip s = py_lstrip (py_rstrip s)"

text \<open>
  \<open>s.split()\<close>: the maximal runs of non-whitespace characters. \<open>split_acc w s\<close> scans
  \<open>s\<close> with the characters of the current token in \<open>w\<close>.
\<close>

fun split_acc :: "pystr \<Rightarrow> pystr \<Rightarrow> pystr list" where
  "split_acc w [] = (if w = [] then [] else [w])"
| "split_acc w (c # cs) =
     (if isspace c then (if w = [] then split_acc [] cs else w # split_acc [] cs)
      else split_acc (w @ [c]) cs)"

definition py_split :: "pystr \<Rightarrow> pystr list" where
  "py_split s = split_acc [] s"

text \<open>\<open>s.split(sep)\<close> for a one-character separator: empty fields are kept.\<close>

fun py_split_sep :: "pychar \<Rightarrow> pystr \<Rightarrow> pystr list" where
  "py_split_sep sep [] = [[]]"
| "py_split_sep sep (c # cs) =
     (if c = sep then [] # py_split_sep sep cs
      else (case py_split_sep sep cs of [] \<Rightarrow> [[c]] | p # ps \<Rightarrow> (c # p) # ps))"

section \<open>Filters\<close>

definition starts_with_capital :: "runtime \<Rightarrow> pystr \<Rightarrow> bool" where
  "starts_with_capital R sentence =
     (let stripped = py_lstrip sentence
      in case stripped of [] \<Rightarrow> False | c # _ \<Rightarrow> isupper R c)"

definition has_no_parentheses :: "pystr \<Rightarrow> bool" where
  "has_no_parentheses sentence \<longleftrightarrow>
     ch CHR ''('' \<notin> set sentence \<and> ch CHR '')'' \<notin> set sentence"

definition ends_with_punctuation :: "pystr \<Rightarrow> bool" where
  "ends_with_punctuation sentence =
     (let stripped = py_rstrip sentence
      in stripped \<noteq> [] \<and> last stripped \<in> {ch CHR ''.'', ch CHR ''?''})"

definition only_one_sentence :: "pystr \<Rightarrow> bool" where
  "only_one_sentence sentence =
     (let stripped = py_rstrip sentence
      in if stripped = [] then False
         else let total_punct =
                    count_list stripped (ch CHR ''.'') + count_list stripped (ch CHR ''?'')
              in total_punct = 1 \<and> last stripped \<in> {ch CHR ''.'', ch CHR ''?''})"

definition has_no_numbers :: "runtime \<Rightarrow> pystr \<Rightarrow> bool" where
  "has_no_numbers R sentence = (\<not> list_ex (isdigit R) sentence)"

text \<open>
  The character class of \<open>pattern\<close>: \<open>a-z\<close>, \<open>A-Z\<close>, the six Norwegian letters
  U+00E6, U+00F8, U+00E5, U+00C6, U+00D8, U+00C5, the whitespace of \<open>\s\<close>, and the
  punctuation \<open>, . ! ? ' : ; -\<close> with the apostrophe U+2019. The pattern is the starred
  class between \<open>^\<close> and \<open>$\<close>, and the class contains the line feed, so
  \<open>re.fullmatch\<close> succeeds exactly when every character of the sentence is in the class.
\<close>

definition pattern_class :: "pychar \<Rightarrow> bool" where
  "pattern_class c \<longleftrightarrow>
     (ch CHR ''a'' \<le> c \<and> c \<le> ch CHR ''z'') \<or> (ch CHR ''A'' \<le> c \<and> c \<le> ch CHR ''Z'') \<or>
     c \<in> {230, 248, 229, 198, 216, 197} \<or> isspace c \<or>
     c \<in> {ch CHR '','', ch CHR ''.'', ch CHR ''!'', ch CHR ''?'', 39, 8217,
          ch CHR '':'', ch CHR '';'', ch CHR ''-''}"

definition no_special_characters :: "pystr \<Rightarrow> bool" where
  "no_special_characters sentence = list_all pattern_class sentence"

text \<open>\<open>sum(2 if len(w) > 10 else 1 for w in words)\<close>\<close>

definition effective_word_count :: "pystr list \<Rightarrow> int" where
  "effective_word_count words = sum_list (map (\<lambda>w. if length w > 10 then 2 else 1) words)"

text \<open>
  Both divisions have a float divisor; the second raises \<open>ZeroDivisionError\<close> when
  \<open>words_per_second\<close> is zero. Python compares the integer bounds with the float
  exactly.
\<close>

definition reading_time_filter :: "runtime \<Rightarrow> pystr \<Rightarrow> int \<Rightarrow> int \<Rightarrow> int \<Rightarrow> error + bool" where
  "reading_time_filter R sentence wpm min_sec max_sec =
     (let words = py_split sentence;
          ewc = effective_word_count words;
          words_per_second = truediv R (of_int wpm) 60
      in if words_per_second = 0 then Inl ZeroDivisionError
         else let reading_time = truediv R (of_int ewc) words_per_second
              in Inr (of_int min_sec \<le> reading_time \<and> reading_time \<le> of_int max_sec))"

definition max_word_count_filter :: "pystr \<Rightarrow> int \<Rightarrow> bool" where
  "max_word_count_filter sentence max_words \<longleftrightarrow> int (length (py_split sentence)) \<le> max_words"

text \<open>
  The loop of \<open>basic_proper_noun_filter\<close> over \<open>words[1:]\<close>; \<open>word[0]\<close> raises
  \<open>IndexError\<close> on an empty word.
\<close>

fun proper_noun_loop :: "runtime \<Rightarrow> pystr list \<Rightarrow> error + bool" where
  "proper_noun_loop R [] = Inr True"
| "proper_noun_loop R (word # rest) =
     (case word of
        [] \<Rightarrow> Inl IndexError
      | c # _ \<Rightarrow> if isupper R c then Inr False else proper_noun_loop R rest)"

definition basic_proper_noun_filter :: "runtime \<Rightarrow> pystr \<Rightarrow> error + bool" where
  "basic_proper_noun_filter R sentence =
     (let words = py_split sentence
      in if length words > 1 then proper_noun_loop R (drop 1 words) else Inr True)"

text \<open>
  The spaCy pipeline \<open>nlp\<close> is a parameter: it maps a sentence to its tokens, of which the
  filter reads the coarse part-of-speech tag.
\<close>

record token =
  orth :: pystr
  pos :: string

definition create_proper_noun_filter :: "(pystr \<Rightarrow> token list) \<Rightarrow> pystr \<Rightarrow> bool" where
  "create_proper_noun_filter nlp sentence =
     (let doc = nlp sentence in \<not> list_ex (\<lambda>token. pos token = ''PROPN'') doc)"

section \<open>Main logic\<close>

text \<open>
  \<open>infile.readlines()\<close> on a file opened in text mode: \<open>\r\n\<close> and \<open>\r\<close> are read as
  \<open>\n\<close>, and every line keeps its line feed (the last line may have none).
\<close>

fun universal_newlines :: "pystr \<Rightarrow> pystr" where
  "universal_newlines [] = []"
| "universal_newlines [c] = [if c = 13 then 10 else c]"
| "universal_newlines (c # d # cs) =
     (if c = 13 \<and> d = 10 then 10 # universal_newlines cs
      else if c = 13 then 10 # universal_newlines (d # cs)
      else c # universal_newlines (d # cs))"

fun lines_acc :: "pystr \<Rightarrow> pystr \<Rightarrow> pystr list" where
  "lines_acc cur [] = (if cur = [] then [] else [cur])"
| "lines_acc cur (c # cs) =
     (if c = 10 then (cur @ [c]) # lines_acc [] cs else lines_acc (cur @ [c]) cs)"

definition readlines :: "pystr \<Rightarrow> pystr list" where
  "readlines content = lines_acc [] (universal_newlines content)"

subsection \<open>The filter list and the rejection counters\<close>

type_synonym filter_list = "((pystr \<Rightarrow> error + bool) \<times> string) list"

text \<open>
  A filter that indexes or divides returns \<open>error + bool\<close>; the others cannot raise and
  are wrapped in \<open>Inr\<close>. The reading-time and word-count filters are called with their
  default arguments.
\<close>

definition fast_filters :: "runtime \<Rightarrow> filter_list" where
  "fast_filters R =
     [(\<lambda>s. Inr (starts_with_capital R s), ''starts_with_capital''),
      (\<lambda>s. Inr (has_no_parentheses s), ''has_no_parentheses''),
      (\<lambda>s. Inr (ends_with_punctuation s), ''ends_with_punctuation''),
      (\<lambda>s. Inr (only_one_sentence s), ''only_one_sentence''),
      (\<lambda>s. Inr (has_no_numbers R s), ''has_no_numbers''),
      (\<lambda>s. Inr (no_special_characters s), ''no_special_characters''),
      (\<lambda>s. reading_time_filter R s 100 2 7, ''reading_time_filter''),
      (\<lambda>s. Inr (max_word_count_filter s 14), ''max_word_count_filter''),
      (basic_proper_noun_filter R, ''basic_proper_noun_filter'')]"

text \<open>
  The dict \<open>filter_fail_count\<close> is an association list in insertion order.
  \<open>d[k] = v\<close> is \<open>AList.update k v d\<close>; \<open>d[k] += 1\<close> raises \<open>KeyError\<close> on a missing key.
\<close>

type_synonym counters = "(string \<times> int) list"

definition dict_incr :: "string \<Rightarrow> counters \<Rightarrow> error + counters" where
  "dict_incr k d =
     (case map_of d k of None \<Rightarrow> Inl KeyError | Some v \<Rightarrow> Inr (AList.update k (v + 1) d))"

definition init_fail_count :: "filter_list \<Rightarrow> counters" where
  "init_fail_count filters =
     AList.update ''proper_noun_filter'' 0
       (fold (\<lambda>(_, filter_name) d. AList.update filter_name 0 d) filters [])"

record state =
  filter_fail_count :: counters
  survivors :: "pystr list"
  total_lines :: int
  final_pass :: "pystr list"

definition init_state :: "filter_list \<Rightarrow> state" where
  "init_state filters =
     \<lparr>filter_fail_count = init_fail_count filters, survivors = [], total_lines = 0,
      final_pass = []\<rparr>"

subsection \<open>First pass\<close>

text \<open>
  The inner loop over \<open>fast_filters\<close>: the first filter that rejects is charged and the
  loop breaks. The result is the counters and \<open>passed_all_fast\<close>.
\<close>

fun apply_fast_filters :: "filter_list \<Rightarrow> pystr \<Rightarrow> counters \<Rightarrow> error + (counters \<times> bool)" where
  "apply_fast_filters [] sentence cnt = Inr (cnt, True)"
| "apply_fast_filters ((filter_func, filter_name) # rest) sentence cnt =
     (case filter_func sentence of
        Inl e \<Rightarrow> Inl e
      | Inr ok \<Rightarrow>
          if \<not> ok then
            (case dict_incr filter_name cnt of
               Inl e \<Rightarrow> Inl e
             | Inr cnt' \<Rightarrow> Inr (cnt', False))
          else apply_fast_filters rest sentence cnt)"

text \<open>
  The head of the loop body: \<open>None\<close> where the body reaches a \<open>continue\<close>, otherwise the
  sentence taken from the second column.
\<close>

definition sentence_of_line :: "pystr \<Rightarrow> pystr option" where
  "sentence_of_line line0 =
     (let line = py_strip line0
      in if line = [] then None
         else let parts = py_split_sep 9 line
              in if length parts < 2 then None
                 else Some (py_strip (parts ! 1)))"

definition process_line :: "filter_list \<Rightarrow> state \<Rightarrow> pystr \<Rightarrow> error + state" where
  "process_line filters st line =
     (case sentence_of_line line of
        None \<Rightarrow> Inr st
      | Some sentence \<Rightarrow>
          (let st1 = st\<lparr>total_lines := total_lines st + 1\<rparr>
           in case apply_fast_filters filters sentence (filter_fail_count st1) of
                Inl e \<Rightarrow> Inl e
              | Inr (cnt, passed_all_fast) \<Rightarrow>
                  Inr (st1\<lparr>filter_fail_count := cnt,
                           survivors := (if passed_all_fast then survivors st1 @ [sentence]
                                         else survivors st1)\<rparr>)))"

fun fast_pass :: "filter_list \<Rightarrow> state \<Rightarrow> pystr list \<Rightarrow> error + state" where
  "fast_pass filters st [] = Inr st"
| "fast_pass filters st (line # lines) =
     (case process_line filters st line of
        Inl e \<Rightarrow> Inl e
      | Inr st' \<Rightarrow> fast_pass filters st' lines)"

subsection \<open>Second pass\<close>

fun spacy_pass :: "(pystr \<Rightarrow> bool) \<Rightarrow> state \<Rightarrow> pystr list \<Rightarrow> error + state" where
  "spacy_pass spaCy_filter_func st [] = Inr st"
| "spacy_pass spaCy_filter_func st (sentence # rest) =
     (if spaCy_filter_func sentence then
        spacy_pass spaCy_filter_func (st\<lparr>final_pass := final_pass st @ [sentence]\<rparr>) rest
      else
        (case dict_incr ''proper_noun_filter'' (filter_fail_count st) of
           Inl e \<Rightarrow> Inl e
         | Inr cnt \<Rightarrow> spacy_pass spaCy_filter_func (st\<lparr>filter_fail_count := cnt\<rparr>) rest))"

text \<open>Both passes, from the lines of the input file.\<close>

definition run_passes :: "runtime \<Rightarrow> (pystr \<Rightarrow> token list) \<Rightarrow> pystr list \<Rightarrow> error + state" where
  "run_passes R nlp lines =
     (let filters = fast_filters R
      in case fast_pass filters (init_state filters) lines of
           Inl e \<Rightarrow> Inl e
         | Inr st \<Rightarrow> spacy_pass (create_proper_noun_filter nlp) st (survivors st))"

subsection \<open>Writing the chunks\<close>

definition source :: pystr where
  "source = ascii ''https://www.nb.no/sprakbanken/ressurskatalog/oai-nb-no-sbr-80/''"

definition additional_rationale :: pystr where
  "additional_rationale =
     ascii ''This is a CC0 licensed corpus cleared from newspaper text. '' @
     ascii ''The source sentences from a translation corpus is used.  '' @
     ascii ''It is released by Spr'' @ [229] @ ascii ''kbanken.''"

definition domain :: pystr where
  "domain = ascii ''General''"

text \<open>\<open>range(start, stop, step)\<close> as the list it iterates over; a zero step raises.\<close>

function range_up :: "int \<Rightarrow> int \<Rightarrow> int \<Rightarrow> int list" where
  "range_up i stop step = (if 0 < step \<and> i < stop then i # range_up (i + step) stop step else [])"
  by pat_completeness auto
termination
  by (relation "measure (\<lambda>(i, stop, step). nat (stop - i))") auto

function range_down :: "int \<Rightarrow> int \<Rightarrow> int \<Rightarrow> int list" where
  "range_down i stop step =
     (if step < 0 \<and> stop < i then i # range_down (i + step) stop step else [])"
  by pat_completeness auto
termination
  by (relation "measure (\<lambda>(i, stop, step). nat (i - stop))") auto

definition py_range :: "int \<Rightarrow> int \<Rightarrow> int \<Rightarrow> error + int list" where
  "py_range start stop step =
     (if step = 0 then Inl ValueError
      else if 0 < step then Inr (range_up start stop step)
      else Inr (range_down start stop step))"

text \<open>
  The slice \<open>xs[i : j]\<close>: a negative bound counts from the end, and both bounds are
  clamped to the list.
\<close>

definition slice_index :: "int \<Rightarrow> int \<Rightarrow> nat" where
  "slice_index n i = nat (if i < 0 then max (i + n) 0 else min i n)"

definition py_slice :: "'a list \<Rightarrow> int \<Rightarrow> int \<Rightarrow> 'a list" where
  "py_slice xs i j =
     (let n = int (length xs); lo = slice_index n i; hi = slice_index n j
      in take (hi - lo) (drop lo xs))"

text \<open>The string that one \<open>outfile.write\<close> call writes for a sentence.\<close>

definition output_line :: "bool \<Rightarrow> pystr \<Rightarrow> pystr" where
  "output_line single_sentences sentence =
     (if single_sentences then sentence @ [10]
      else sentence @ [9] @ source @ [9] @ additional_rationale @ [9] @ [] @ [9] @ domain @ [10])"

text \<open>
  The files of the output folder: \<open>files k\<close> is the content of \<open>output_k.tsv\<close>, if it
  exists. Opening a file for writing replaces its content.
\<close>

type_synonym files = "int \<rightharpoonup> pystr"

text \<open>The loop over \<open>range(0, total_final, CHUNK_SIZE)\<close>; it carries the files and \<open>chunk_count\<close>.\<close>

fun write_chunks :: "bool \<Rightarrow> int \<Rightarrow> pystr list \<Rightarrow> files \<times> int \<Rightarrow> int list \<Rightarrow> files \<times> int" where
  "write_chunks single_sentences CHUNK_SIZE final (fs, chunk_count) [] = (fs, chunk_count)"
| "write_chunks single_sentences CHUNK_SIZE final (fs, chunk_count) (i # rest) =
     (let chunk_count' = chunk_count + 1;
          chunk = py_slice final i (i + CHUNK_SIZE);
          fs' = fs(chunk_count' \<mapsto> concat (map (output_line single_sentences) chunk))
      in write_chunks single_sentences CHUNK_SIZE final (fs', chunk_count') rest)"

definition write_output :: "bool \<Rightarrow> int \<Rightarrow> pystr list \<Rightarrow> files \<Rightarrow> error + (files \<times> int)" where
  "write_output single_sentences CHUNK_SIZE final fs =
     (let total_final = int (length final)
      in case py_range 0 total_final CHUNK_SIZE of
           Inl e \<Rightarrow> Inl e
         | Inr starts \<Rightarrow> Inr (write_chunks single_sentences CHUNK_SIZE final (fs, 0) starts))"

text \<open>
  What a run leaves behind: the files of the output folder and the printed statistics.
\<close>

record report =
  out_files :: files
  stat_total_lines :: int
  stat_fail_count :: counters
  stat_total_final :: int
  stat_chunk_count :: int

text \<open>
  \<open>main\<close> after the command line is parsed and validated and the model is loaded:
  \<open>content\<close> is the text of the input file, \<open>fs\<close> the files of the output folder before
  the run.
\<close>

definition main :: "runtime \<Rightarrow> (pystr \<Rightarrow> token list) \<Rightarrow> pystr \<Rightarrow> bool \<Rightarrow> int \<Rightarrow> files \<Rightarrow> error + report" where
  "main R nlp content single_sentences chunk_size fs =
     (case run_passes R nlp (readlines content) of
        Inl e \<Rightarrow> Inl e
      | Inr st \<Rightarrow>
          (case write_output single_sentences chunk_size (final_pass st) fs of
             Inl e \<Rightarrow> Inl e
           | Inr (fs', chunk_count) \<Rightarrow>
               Inr \<lparr>out_files = fs', stat_total_lines = total_lines st,
                    stat_fail_count = filter_fail_count st,
                    stat_total_final = int (length (final_pass st)),
                    stat_chunk_count = chunk_count\<rparr>))"

section \<open>An example input\<close>

text \<open>
  A tagger that marks the token \<open>Oslo\<close> as a proper noun, and six input lines: two of
  them have no second column, one sentence fails a fast filter, one holds a proper noun,
  two are accepted.
\<close>

definition example_nlp :: "pystr \<Rightarrow> token list" where
  "example_nlp sentence =
     map (\<lambda>w. \<lparr>orth = w, pos = (if w = ascii ''Oslo'' then ''PROPN'' else ''NOUN'')\<rparr>)
       (py_split sentence)"

definition example_lines :: "pystr list" where
  "example_lines =
     [ascii ''1'' @ [9] @ ascii ''Hallo der borte i dag.'' @ [10],
      ascii ''no tab here'' @ [10],
      [10],
      ascii ''2'' @ [9] @ ascii ''Hei du'' @ [10],
      ascii ''3'' @ [9] @ ascii ''Oslo er en by.'' @ [10],
      ascii ''4'' @ [9] @ ascii ''Dette er en fin setning.'' @ [9] @ ascii ''extra'' @ [10]]"

text \<open>The input of Scenario A: the single line \<open>1\tHallo der.\n\<close>.\<close>

definition scenario_A :: pystr where
  "scenario_A = ascii ''1'' @ [9] @ ascii ''Hallo der.'' @ [10]"

section \<open>Properties of the string operations\<close>

lemma split_acc_nonempty: "w' \<in> set (split_acc w s) \<Longrightarrow> w' \<noteq> []"
  by (induction s arbitrary: w) (auto split: if_splits)

lemma py_split_nonempty: "[] \<notin> set (py_split s)"
  using split_acc_nonempty [of "[]" "[]" s] by (auto simp: py_split_def)

section \<open>The basic proper-noun filter never raises\<close>

lemma proper_noun_loop_total:
  "[] \<notin> set ws \<Longrightarrow>
     proper_noun_loop R ws = Inr (\<not> (\<exists>w \<in> set ws. \<exists>c cs. w = c # cs \<and> isupper R c))"
  by (induction ws) (auto split: list.splits)

lemma basic_proper_noun_filter_eq:
  "basic_proper_noun_filter R s =
     Inr (\<not> (\<exists>w \<in> set (drop 1 (py_split s)). \<exists>c cs. w = c # cs \<and> isupper R c))"
proof -
  have ne: "[] \<notin> set (drop 1 (py_split s))"
    using py_split_nonempty [of s] by (auto dest: in_set_dropD)
  show ?thesis
  proof (cases "length (py_split s) > 1")
    case True
    with proper_noun_loop_total [OF ne, of R] show ?thesis
      by (simp add: basic_proper_noun_filter_def)
  next
    case False
    then have "drop 1 (py_split s) = []" by simp
    with False show ?thesis
      by (simp add: basic_proper_noun_filter_def)
  qed
qed

text \<open>
  Claim C10. \<open>basic_proper_noun_filter\<close> returns a boolean for every string, the empty
  and the whitespace-only ones included: \<open>split()\<close> yields no empty token, so \<open>word[0]\<close>
  never raises \<open>IndexError\<close>, and the filter accepts exactly when no token after the first
  begins with an uppercase character.
\<close>

theorem basic_proper_noun_filter_total:
  "[] \<notin> set (py_split s) \<and>
   basic_proper_noun_filter R s =
     Inr (\<not> (\<exists>w \<in> set (drop 1 (py_split s)). \<exists>c cs. w = c # cs \<and> isupper R c))"
  using py_split_nonempty basic_proper_noun_filter_eq by blast

theorem basic_proper_noun_filter_total_witness:
  "[] \<notin> set (py_split (ascii ''Dette er Oslo.'')) \<and>
   basic_proper_noun_filter ascii_runtime (ascii ''Dette er Oslo.'') = Inr False \<and>
   basic_proper_noun_filter ascii_runtime [] = Inr True \<and>
   basic_proper_noun_filter ascii_runtime [32, 9, 32] = Inr True"
  using basic_proper_noun_filter_total [of "ascii ''Dette er Oslo.''" ascii_runtime]
    basic_proper_noun_filter_total [of "[]" ascii_runtime]
    basic_proper_noun_filter_total [of "[32, 9, 32]" ascii_runtime]
  by (simp add: py_split_def ascii_def isspace_def ascii_runtime_def)

section \<open>The reading-time filter\<close>

lemma ieee_division_zero: "ieee_division dv \<Longrightarrow> b \<noteq> 0 \<Longrightarrow> dv 0 b = 0"
  unfolding ieee_division_def by blast

lemma ieee_division_mono: "ieee_division dv \<Longrightarrow> 0 < b \<Longrightarrow> a \<le> a' \<Longrightarrow> dv a b \<le> dv a' b"
  unfolding ieee_division_def by blast

lemma normal_range: "(1::real) / 2 ^ 1022 \<le> 1 / 2" "(8::real) \<le> 2 ^ 1023"
proof -
  have "(2::real) ^ 1 \<le> 2 ^ 1022" by (rule power_increasing) simp_all
  then show "(1::real) / 2 ^ 1022 \<le> 1 / 2" by (simp add: field_simps)
  have "(2::real) ^ 3 \<le> 2 ^ 1023" by (rule power_increasing) simp_all
  then show "(8::real) \<le> 2 ^ 1023" by simp
qed

lemma ieee_division_bounds:
  assumes "ieee_division dv" and "b \<noteq> 0" and "1 / 2 \<le> a / b" and "a / b \<le> 8"
  shows "99 / 100 * (a / b) \<le> dv a b" and "dv a b \<le> 101 / 100 * (a / b)"
proof -
  from assms(3) have pos: "0 \<le> a / b" by linarith
  from assms(3,4) normal_range pos
  have "1 / 2 ^ 1022 \<le> \<bar>a / b\<bar>" and "\<bar>a / b\<bar> \<le> 2 ^ 1023" by linarith+
  with assms(1,2) have h: "\<bar>dv a b - a / b\<bar> \<le> \<bar>a / b\<bar> / 2 ^ 50"
    unfolding ieee_division_def by blast
  have "\<bar>a / b\<bar> / 2 ^ 50 \<le> \<bar>a / b\<bar> / 100"
    by (rule divide_left_mono) simp_all
  with h pos have "\<bar>dv a b - a / b\<bar> \<le> (a / b) / 100" by simp
  then show "99 / 100 * (a / b) \<le> dv a b" and "dv a b \<le> 101 / 100 * (a / b)"
    by (simp_all add: abs_le_iff)
qed

lemma words_per_second_bounds:
  assumes "ieee_division dv"
  shows "165 / 100 \<le> dv 100 60" and "dv 100 60 \<le> 169 / 100"
  using ieee_division_bounds [OF assms, of 60 100] by simp_all

lemma effective_word_count_nonneg: "0 \<le> effective_word_count ws"
  by (induction ws) (simp_all add: effective_word_count_def)

text \<open>The computed reading time of 1 to 12 effective words, within one percent.\<close>

lemma reading_time_estimate:
  assumes dv: "ieee_division dv" and e: "1 \<le> e" "e \<le> 12"
  shows "99 / 169 * real_of_int e \<le> dv (of_int e) (dv 100 60)"
    and "dv (of_int e) (dv 100 60) \<le> 101 / 165 * real_of_int e"
proof -
  define w where "w = dv 100 60"
  define q where "q = real_of_int e / w"
  have w: "165 / 100 \<le> w" "w \<le> 169 / 100"
    using words_per_second_bounds [OF dv] by (simp_all add: w_def)
  then have w0: "0 < w" by simp
  from e have er: "1 \<le> real_of_int e" "real_of_int e \<le> 12" by simp_all
  with w0 have q0: "0 \<le> q" by (simp add: q_def)
  have qlo: "real_of_int e \<le> 169 / 100 * q"
  proof -
    have "real_of_int e = q * w" using w0 by (simp add: q_def)
    also have "\<dots> \<le> q * (169 / 100)" using q0 w by (intro mult_left_mono) simp_all
    finally show ?thesis by simp
  qed
  have qhi: "165 / 100 * q \<le> real_of_int e"
  proof -
    have "q * (165 / 100) \<le> q * w" using q0 w by (intro mult_left_mono) simp_all
    also have "\<dots> = real_of_int e" using w0 by (simp add: q_def)
    finally show ?thesis by simp
  qed
  from qlo qhi er have "1 / 2 \<le> q" "q \<le> 8" by simp_all
  with w0 have lo: "99 / 100 * q \<le> dv (of_int e) w" and hi: "dv (of_int e) w \<le> 101 / 100 * q"
    using ieee_division_bounds [OF dv, of w "of_int e"] by (simp_all add: q_def)
  from lo qlo show "99 / 169 * real_of_int e \<le> dv (of_int e) (dv 100 60)"
    unfolding w_def by simp
  from hi qhi show "dv (of_int e) (dv 100 60) \<le> 101 / 165 * real_of_int e"
    unfolding w_def by simp
qed

lemma reading_time_band:
  assumes dv: "ieee_division dv" and e: "0 \<le> e"
  shows "(2 \<le> dv (of_int e) (dv 100 60) \<and> dv (of_int e) (dv 100 60) \<le> 7) \<longleftrightarrow> (4 \<le> e \<and> e \<le> 11)"
proof -
  have w0: "0 < dv 100 60"
    using words_per_second_bounds [OF dv] by simp
  consider "e = 0" | "1 \<le> e" "e \<le> 3" | "4 \<le> e" "e \<le> 11" | "12 \<le> e"
    using e by linarith
  then show ?thesis
  proof cases
    case 1
    with ieee_division_zero [OF dv, of "dv 100 60"] w0 show ?thesis by simp
  next
    case 2
    then have "real_of_int e \<le> 3" by simp
    with reading_time_estimate(2) [OF dv, of e] 2 have "dv (of_int e) (dv 100 60) < 2" by simp
    with 2 show ?thesis by simp
  next
    case 3
    then have "4 \<le> real_of_int e" "real_of_int e \<le> 11" by simp_all
    with reading_time_estimate [OF dv, of e] 3
    have "2 \<le> dv (of_int e) (dv 100 60)" "dv (of_int e) (dv 100 60) \<le> 7" by simp_all
    with 3 show ?thesis by simp
  next
    case 4
    from reading_time_estimate(1) [OF dv, of 12] have "7 < dv 12 (dv 100 60)" by simp
    also have "dv 12 (dv 100 60) \<le> dv (of_int e) (dv 100 60)"
      using dv w0 by (rule ieee_division_mono) (use 4 in simp)
    finally show ?thesis using 4 by simp
  qed
qed

lemma reading_time_filter_eq:
  assumes "ieee_division (truediv R)"
  shows "reading_time_filter R s 100 2 7 =
           Inr (4 \<le> effective_word_count (py_split s) \<and> effective_word_count (py_split s) \<le> 11)"
proof -
  have "truediv R 100 60 \<noteq> 0"
    using words_per_second_bounds [OF assms] by simp
  then show ?thesis
    using reading_time_band [OF assms effective_word_count_nonneg, of "py_split s"]
    by (simp add: reading_time_filter_def Let_def)
qed

lemma effective_word_count_tokens:
  "effective_word_count ws = int (length ws) + int (length (filter (\<lambda>w. 10 < length w) ws))"
  by (induction ws) (simp_all add: effective_word_count_def)

lemma exact_band:
  "(2 \<le> real_of_int e / (100 / 60) \<and> real_of_int e / (100 / 60) \<le> 7) \<longleftrightarrow> (4 \<le> e \<and> e \<le> 11)"
proof -
  have a: "(2 \<le> real_of_int e / (100 / 60)) \<longleftrightarrow> (10 \<le> 3 * real_of_int e)" by (simp add: field_simps)
  have b: "(real_of_int e / (100 / 60) \<le> 7) \<longleftrightarrow> (3 * real_of_int e \<le> 35)" by (simp add: field_simps)
  have c: "(10 \<le> 3 * real_of_int e) \<longleftrightarrow> (10 \<le> 3 * e)"
    by (metis (mono_tags) of_int_le_iff of_int_mult of_int_numeral)
  have d: "(3 * real_of_int e \<le> 35) \<longleftrightarrow> (3 * e \<le> 35)"
    by (metis (mono_tags) of_int_le_iff of_int_mult of_int_numeral)
  show ?thesis unfolding a b c d by presburger
qed

lemma ieee_exact: "ieee_division (\<lambda>a b. a / b)"
  by (simp add: ieee_division_def divide_right_mono)

lemma ieee_ascii: "ieee_division (truediv ascii_runtime)"
  using ieee_exact by (simp add: ascii_runtime_def)

text \<open>
  Claim C5. With the default arguments the reading-time filter returns a boolean, and it
  accepts exactly when the effective word count lies between 4 and 11: that is the count
  whose exact duration at 100 words per minute, \<open>e / (100 / 60)\<close> seconds, lies in the
  closed interval from 2 to 7, and the rounding of the two float divisions moves no
  count across a bound. The effective word count is the number of tokens of \<open>split()\<close>
  plus the number of tokens longer than 10 characters.
\<close>

theorem reading_time_filter_band:
  assumes "ieee_division (truediv R)"
  shows "reading_time_filter R s 100 2 7 =
           Inr (4 \<le> effective_word_count (py_split s) \<and> effective_word_count (py_split s) \<le> 11) \<and>
         ((4 \<le> effective_word_count (py_split s) \<and> effective_word_count (py_split s) \<le> 11) \<longleftrightarrow>
          (2 \<le> real_of_int (effective_word_count (py_split s)) / (100 / 60) \<and>
           real_of_int (effective_word_count (py_split s)) / (100 / 60) \<le> 7)) \<and>
         effective_word_count (py_split s) =
           int (length (py_split s)) + int (length (filter (\<lambda>w. 10 < length w) (py_split s)))"
proof (intro conjI)
  show "reading_time_filter R s 100 2 7 =
          Inr (4 \<le> effective_word_count (py_split s) \<and> effective_word_count (py_split s) \<le> 11)"
    by (rule reading_time_filter_eq [OF assms])
  show "(4 \<le> effective_word_count (py_split s) \<and> effective_word_count (py_split s) \<le> 11) \<longleftrightarrow>
        (2 \<le> real_of_int (effective_word_count (py_split s)) / (100 / 60) \<and>
         real_of_int (effective_word_count (py_split s)) / (100 / 60) \<le> 7)"
    by (rule exact_band [symmetric])
  show "effective_word_count (py_split s) =
          int (length (py_split s)) + int (length (filter (\<lambda>w. 10 < length w) (py_split s)))"
    by (rule effective_word_count_tokens)
qed

theorem reading_time_filter_band_witness:
  "ieee_division (truediv ascii_runtime) \<and>
   effective_word_count (py_split (ascii ''Hallo der borte i dag.'')) = 5 \<and>
   reading_time_filter ascii_runtime (ascii ''Hallo der borte i dag.'') 100 2 7 = Inr True \<and>
   effective_word_count (py_split (ascii ''Hallo der.'')) = 2 \<and>
   reading_time_filter ascii_runtime (ascii ''Hallo der.'') 100 2 7 = Inr False \<and>
   effective_word_count (py_split (ascii ''Menneskerettighetene gjelder alle.'')) = 4"
proof -
  note h = ieee_ascii
  have a: "effective_word_count (py_split (ascii ''Hallo der borte i dag.'')) = 5"
    by (simp add: effective_word_count_def py_split_def ascii_def isspace_def)
  have b: "effective_word_count (py_split (ascii ''Hallo der.'')) = 2"
    by (simp add: effective_word_count_def py_split_def ascii_def isspace_def)
  have c: "effective_word_count (py_split (ascii ''Menneskerettighetene gjelder alle.'')) = 4"
    by (simp add: effective_word_count_def py_split_def ascii_def isspace_def)
  show ?thesis
    using h a b c reading_time_filter_band [OF h, of "ascii ''Hallo der borte i dag.''"]
      reading_time_filter_band [OF h, of "ascii ''Hallo der.''"]
    by simp
qed

section \<open>Empty and whitespace-only sentences\<close>

lemma whitespace_only_strip:
  assumes "\<forall>c\<in>set s. isspace c"
  shows "py_lstrip s = []" and "py_rstrip s = []" and "py_strip s = []"
proof -
  show l: "py_lstrip s = []"
    using assms by (simp add: py_lstrip_def)
  show r: "py_rstrip s = []"
    using assms by (simp add: py_rstrip_def)
  show "py_strip s = []"
    by (simp add: py_strip_def r py_lstrip_def)
qed

lemma whitespace_only_split_acc:
  "\<forall>c\<in>set s. isspace c \<Longrightarrow> split_acc [] s = []"
  by (induction s) simp_all

lemma whitespace_only_split: "\<forall>c\<in>set s. isspace c \<Longrightarrow> py_split s = []"
  by (simp add: py_split_def whitespace_only_split_acc)

lemma isspace_pattern_class: "isspace c \<Longrightarrow> pattern_class c"
  by (simp add: pattern_class_def)

lemma not_isspace_paren: "\<not> isspace (ch CHR ''('')" "\<not> isspace (ch CHR '')'')"
  by (simp_all add: isspace_def ch_def)

text \<open>
  Claim C4, as the code has it. On an empty or whitespace-only string
  \<open>starts_with_capital\<close>, \<open>ends_with_punctuation\<close>, \<open>only_one_sentence\<close> and
  \<open>reading_time_filter\<close> reject, while \<open>has_no_parentheses\<close>, \<open>no_special_characters\<close>,
  \<open>max_word_count_filter\<close> and \<open>basic_proper_noun_filter\<close> accept, and \<open>has_no_numbers\<close>
  accepts the empty string. No filter raises.
\<close>

theorem whitespace_only_filters:
  assumes "ieee_division (truediv R)" and "\<forall>c\<in>set s. isspace c"
  shows "\<not> starts_with_capital R s \<and> \<not> ends_with_punctuation s \<and> \<not> only_one_sentence s \<and>
         reading_time_filter R s 100 2 7 = Inr False \<and>
         has_no_parentheses s \<and> no_special_characters s \<and> max_word_count_filter s 14 \<and>
         basic_proper_noun_filter R s = Inr True \<and> has_no_numbers R []"
proof -
  note st = whitespace_only_strip [OF assms(2)] and sp = whitespace_only_split [OF assms(2)]
  have 1: "\<not> starts_with_capital R s" by (simp add: starts_with_capital_def st)
  have 2: "\<not> ends_with_punctuation s" by (simp add: ends_with_punctuation_def st)
  have 3: "\<not> only_one_sentence s" by (simp add: only_one_sentence_def st)
  have 4: "reading_time_filter R s 100 2 7 = Inr False"
    by (simp add: reading_time_filter_eq [OF assms(1)] sp effective_word_count_def)
  have 5: "has_no_parentheses s"
    using assms(2) not_isspace_paren by (auto simp: has_no_parentheses_def)
  have 6: "no_special_characters s"
    using assms(2) by (simp add: no_special_characters_def list_all_iff isspace_pattern_class)
  have 7: "max_word_count_filter s 14" by (simp add: max_word_count_filter_def sp)
  have 8: "basic_proper_noun_filter R s = Inr True"
    by (simp add: basic_proper_noun_filter_def sp)
  have 9: "has_no_numbers R []" by (simp add: has_no_numbers_def)
  from 1 2 3 4 5 6 7 8 9 show ?thesis by blast
qed

theorem whitespace_only_filters_witness:
  "ieee_division (truediv ascii_runtime) \<and> list_all isspace [32, 9, 160] \<and>
   \<not> starts_with_capital ascii_runtime [32, 9, 160] \<and>
   reading_time_filter ascii_runtime [32, 9, 160] 100 2 7 = Inr False \<and>
   has_no_parentheses [32, 9, 160] \<and> no_special_characters [32, 9, 160] \<and>
   max_word_count_filter [32, 9, 160] 14 \<and>
   basic_proper_noun_filter ascii_runtime [32, 9, 160] = Inr True"
proof -
  note h = ieee_ascii
  have w: "\<forall>c\<in>set [32, 9, 160]. isspace c"
    by (simp add: isspace_def)
  from whitespace_only_filters [OF h w] h w show ?thesis
    by (simp add: list_all_iff)
qed

text \<open>
  Five of the nine filters accept the empty string, so the claim that every filter rejects
  it does not hold.
\<close>

theorem empty_string_accepted_counterexample:
  "has_no_parentheses [] \<and> has_no_numbers ascii_runtime [] \<and> no_special_characters [] \<and>
   max_word_count_filter [] 14 \<and> basic_proper_noun_filter ascii_runtime [] = Inr True"
  by (simp add: has_no_parentheses_def has_no_numbers_def no_special_characters_def
      max_word_count_filter_def basic_proper_noun_filter_def py_split_def)

section \<open>The short circuit of the fast filters\<close>

lemma dict_incr_present:
  "map_of cnt k = Some v \<Longrightarrow> dict_incr k cnt = Inr (AList.update k (v + 1) cnt)"
  by (simp add: dict_incr_def)

lemma sum_update_incr:
  "map_of cnt k = Some v \<Longrightarrow>
     sum_list (map snd (AList.update k (v + 1) cnt)) = sum_list (map snd cnt) + (1::int)"
  by (induction cnt) (auto split: if_splits)

lemma keys_update_present:
  "map_of cnt k = Some v \<Longrightarrow> map fst (AList.update k v' cnt) = map fst cnt"
  by (induction cnt) (auto split: if_splits)

lemma apply_fast_filters_first_reject:
  assumes "i < length fs"
    and "fst (fs ! i) s = Inr False"
    and "\<forall>j<i. fst (fs ! j) s = Inr True"
    and "map_of cnt (snd (fs ! i)) = Some v"
  shows "apply_fast_filters fs s cnt = Inr (AList.update (snd (fs ! i)) (v + 1) cnt, False)"
  using assms
proof (induction fs arbitrary: i)
  case Nil
  then show ?case by simp
next
  case (Cons p fs)
  obtain f n where p: "p = (f, n)" by (cases p)
  show ?case
  proof (cases i)
    case 0
    with Cons.prems p show ?thesis by (simp add: dict_incr_present)
  next
    case (Suc i')
    from Cons.prems(3) Suc have "fst ((p # fs) ! 0) s = Inr True" by blast
    with p have head: "f s = Inr True" by simp
    have "\<forall>j<i'. fst (fs ! j) s = Inr True"
    proof (intro allI impI)
      fix j assume "j < i'"
      then have "Suc j < i" using Suc by simp
      with Cons.prems(3) have "fst ((p # fs) ! Suc j) s = Inr True" by blast
      then show "fst (fs ! j) s = Inr True" by simp
    qed
    with Cons.IH [of i'] Cons.prems Suc
    have "apply_fast_filters fs s cnt = Inr (AList.update (snd (fs ! i')) (v + 1) cnt, False)"
      by simp
    with head p Suc show ?thesis by simp
  qed
qed

lemma apply_fast_filters_later_ignored:
  assumes "i < length fs"
    and "fst (fs ! i) s = Inr False"
    and "\<forall>j<i. fst (fs ! j) s = Inr True"
    and "map_of cnt (snd (fs ! i)) = Some v"
  shows "apply_fast_filters (take (Suc i) fs @ later) s cnt =
           Inr (AList.update (snd (fs ! i)) (v + 1) cnt, False)"
proof -
  let ?gs = "take (Suc i) fs @ later"
  have nth: "?gs ! j = fs ! j" if "j \<le> i" for j
    using that assms(1) by (simp add: nth_append)
  have "i < length ?gs" using assms(1) by simp
  moreover have "fst (?gs ! i) s = Inr False" using assms(2) nth by simp
  moreover have "\<forall>j<i. fst (?gs ! j) s = Inr True" using assms(3) nth by simp
  moreover have "map_of cnt (snd (?gs ! i)) = Some v" using assms(4) nth by simp
  ultimately have "apply_fast_filters ?gs s cnt =
      Inr (AList.update (snd (?gs ! i)) (v + 1) cnt, False)"
    by (rule apply_fast_filters_first_reject)
  then show ?thesis using nth by simp
qed

lemma fast_filter_names:
  "map snd (fast_filters R) =
     [''starts_with_capital'', ''has_no_parentheses'', ''ends_with_punctuation'',
      ''only_one_sentence'', ''has_no_numbers'', ''no_special_characters'',
      ''reading_time_filter'', ''max_word_count_filter'', ''basic_proper_noun_filter'']"
  by (simp add: fast_filters_def)

lemma init_counts:
  "init_fail_count (fast_filters R) =
     [(''starts_with_capital'', 0), (''has_no_parentheses'', 0), (''ends_with_punctuation'', 0),
      (''only_one_sentence'', 0), (''has_no_numbers'', 0), (''no_special_characters'', 0),
      (''reading_time_filter'', 0), (''max_word_count_filter'', 0),
      (''basic_proper_noun_filter'', 0), (''proper_noun_filter'', 0)]"
  by (simp add: init_fail_count_def fast_filters_def)

text \<open>
  Claim C1. When the earliest filter of the cascade that rejects a sentence is the one at
  position \<open>i\<close>, the loop over the fast filters charges that filter and no other: its
  counter goes up by one, every other counter keeps its value, the sum of the counters
  goes up by exactly one, and the result does not depend on the filters after position
  \<open>i\<close>, whatever they are, since the loop breaks before it reaches them. The order of the
  cascade is the fixed one.
\<close>

theorem fast_filters_short_circuit:
  assumes "i < length (fast_filters R)"
    and "fst (fast_filters R ! i) s = Inr False"
    and "\<forall>j<i. fst (fast_filters R ! j) s = Inr True"
    and "map_of cnt (snd (fast_filters R ! i)) = Some v"
  shows "\<exists>cnt'. apply_fast_filters (fast_filters R) s cnt = Inr (cnt', False) \<and>
           map_of cnt' (snd (fast_filters R ! i)) = Some (v + 1) \<and>
           (\<forall>name. name \<noteq> snd (fast_filters R ! i) \<longrightarrow> map_of cnt' name = map_of cnt name) \<and>
           sum_list (map snd cnt') = sum_list (map snd cnt) + 1 \<and>
           map fst cnt' = map fst cnt \<and>
           (\<forall>later. apply_fast_filters (take (Suc i) (fast_filters R) @ later) s cnt =
              Inr (cnt', False)) \<and>
           map snd (fast_filters R) =
             [''starts_with_capital'', ''has_no_parentheses'', ''ends_with_punctuation'',
              ''only_one_sentence'', ''has_no_numbers'', ''no_special_characters'',
              ''reading_time_filter'', ''max_word_count_filter'', ''basic_proper_noun_filter'']"
proof -
  let ?n = "snd (fast_filters R ! i)"
  let ?c = "AList.update ?n (v + 1) cnt"
  have "apply_fast_filters (fast_filters R) s cnt = Inr (?c, False)"
    using assms by (rule apply_fast_filters_first_reject)
  moreover have "map_of ?c ?n = Some (v + 1)"
    by (simp add: update_conv')
  moreover have "\<forall>name. name \<noteq> ?n \<longrightarrow> map_of ?c name = map_of cnt name"
    by (simp add: update_conv')
  moreover have "sum_list (map snd ?c) = sum_list (map snd cnt) + 1"
    using assms(4) by (rule sum_update_incr)
  moreover have "map fst ?c = map fst cnt"
    using assms(4) by (rule keys_update_present)
  moreover have "\<forall>later. apply_fast_filters (take (Suc i) (fast_filters R) @ later) s cnt =
      Inr (?c, False)"
    using apply_fast_filters_later_ignored [OF assms] by blast
  ultimately show ?thesis using fast_filter_names by blast
qed

theorem fast_filters_short_circuit_witness:
  "fst (fast_filters ascii_runtime ! 2) (ascii ''Hei du'') = Inr False \<and>
   fst (fast_filters ascii_runtime ! 3) (ascii ''Hei du'') = Inr False \<and>
   fst (fast_filters ascii_runtime ! 6) (ascii ''Hei du'') = Inr False \<and>
   apply_fast_filters (fast_filters ascii_runtime) (ascii ''Hei du'')
       (init_fail_count (fast_filters ascii_runtime)) =
     Inr ([(''starts_with_capital'', 0), (''has_no_parentheses'', 0), (''ends_with_punctuation'', 1),
           (''only_one_sentence'', 0), (''has_no_numbers'', 0), (''no_special_characters'', 0),
           (''reading_time_filter'', 0), (''max_word_count_filter'', 0),
           (''basic_proper_noun_filter'', 0), (''proper_noun_filter'', 0)], False)"
proof -
  let ?F = "fast_filters ascii_runtime" and ?s = "ascii ''Hei du''"
  have nth: "?F ! 0 = (\<lambda>s. Inr (starts_with_capital ascii_runtime s), ''starts_with_capital'')"
    "?F ! Suc 0 = (\<lambda>s. Inr (has_no_parentheses s), ''has_no_parentheses'')"
    "?F ! 2 = (\<lambda>s. Inr (ends_with_punctuation s), ''ends_with_punctuation'')"
    "?F ! 3 = (\<lambda>s. Inr (only_one_sentence s), ''only_one_sentence'')"
    "?F ! 6 = (\<lambda>s. reading_time_filter ascii_runtime s 100 2 7, ''reading_time_filter'')"
    by (simp_all add: fast_filters_def)
  have f0: "starts_with_capital ascii_runtime ?s"
    by (simp add: starts_with_capital_def py_lstrip_def ascii_def isspace_def ascii_runtime_def)
  have f1: "has_no_parentheses ?s"
    by (simp add: has_no_parentheses_def ascii_def ch_def)
  have f2: "\<not> ends_with_punctuation ?s"
    by (simp add: ends_with_punctuation_def py_rstrip_def ascii_def isspace_def ch_def)
  have f3: "\<not> only_one_sentence ?s"
    by (simp add: only_one_sentence_def py_rstrip_def ascii_def isspace_def ch_def)
  have f6: "reading_time_filter ascii_runtime ?s 100 2 7 = Inr False"
    by (simp add: reading_time_filter_def effective_word_count_def py_split_def ascii_def
        isspace_def ascii_runtime_def)
  have h1: "2 < length ?F" by (simp add: fast_filters_def)
  have h2: "fst (?F ! 2) ?s = Inr False" using f2 by (simp add: nth)
  have h3: "\<forall>j<2. fst (?F ! j) ?s = Inr True"
  proof (intro allI impI)
    fix j :: nat assume "j < 2"
    then have "j = 0 \<or> j = 1" by arith
    then show "fst (?F ! j) ?s = Inr True" using f0 f1 by (auto simp: nth)
  qed
  have h4: "map_of (init_fail_count ?F) (snd (?F ! 2)) = Some 0"
    by (simp add: init_counts nth)
  from fast_filters_short_circuit [OF h1 h2 h3 h4]
  obtain cnt' where
    c: "apply_fast_filters ?F ?s (init_fail_count ?F) = Inr (cnt', False)" by blast
  have "apply_fast_filters ?F ?s (init_fail_count ?F) =
      Inr (AList.update (snd (?F ! 2)) (0 + 1) (init_fail_count ?F), False)"
    using h1 h2 h3 h4 by (rule apply_fast_filters_first_reject)
  then have "apply_fast_filters ?F ?s (init_fail_count ?F) =
     Inr ([(''starts_with_capital'', 0), (''has_no_parentheses'', 0), (''ends_with_punctuation'', 1),
           (''only_one_sentence'', 0), (''has_no_numbers'', 0), (''no_special_characters'', 0),
           (''reading_time_filter'', 0), (''max_word_count_filter'', 0),
           (''basic_proper_noun_filter'', 0), (''proper_noun_filter'', 0)], False)"
    by (simp add: init_counts nth)
  with c h2 f3 f6 show ?thesis by (simp add: nth)
qed

section \<open>The two passes\<close>

lemma py_split_sep_ne: "py_split_sep sep s \<noteq> []"
  by (induction s) (auto split: list.splits)

lemma length_py_split_sep: "length (py_split_sep sep s) = Suc (count_list s sep)"
  using py_split_sep_ne [of sep] by (induction s) (auto split: list.splits)

lemma py_split_sep_no_sep: "p \<in> set (py_split_sep sep s) \<Longrightarrow> sep \<notin> set p"
  by (induction s arbitrary: p) (auto split: if_splits list.splits)

lemma set_py_strip: "set (py_strip s) \<subseteq> set s"
proof -
  have "set (py_strip s) \<subseteq> set (py_rstrip s)"
    by (auto simp: py_strip_def py_lstrip_def dest: set_dropWhileD)
  also have "\<dots> \<subseteq> set s"
    by (auto simp: py_rstrip_def dest: set_dropWhileD)
  finally show ?thesis .
qed

lemma sentence_of_line_None:
  "py_strip line = [] \<or> length (py_split_sep 9 line) < 2 \<Longrightarrow> sentence_of_line line = None"
proof (cases "py_strip line = []")
  case True
  then show ?thesis by (simp add: sentence_of_line_def)
next
  case False
  assume "py_strip line = [] \<or> length (py_split_sep 9 line) < 2"
  with False have "length (py_split_sep 9 line) < 2" by simp
  then have "9 \<notin> set line"
    by (simp add: length_py_split_sep count_list_0_iff)
  with set_py_strip [of line] have "9 \<notin> set (py_strip line)" by blast
  then have "length (py_split_sep 9 (py_strip line)) < 2"
    by (simp add: length_py_split_sep)
  then show ?thesis by (simp add: sentence_of_line_def Let_def)
qed

lemma sentence_of_line_Some:
  assumes "sentence_of_line line = Some s"
  shows "py_strip line \<noteq> []" and "2 \<le> length (py_split_sep 9 line)" and "9 \<notin> set s"
    and "s = py_strip (py_split_sep 9 (py_strip line) ! 1)"
proof -
  from assms show ne: "py_strip line \<noteq> []"
    by (auto simp: sentence_of_line_def Let_def split: if_splits)
  from assms show "2 \<le> length (py_split_sep 9 line)"
    using sentence_of_line_None [of line] by fastforce
  from assms have len: "\<not> length (py_split_sep 9 (py_strip line)) < 2"
    and s: "s = py_strip (py_split_sep 9 (py_strip line) ! 1)"
    by (auto simp: sentence_of_line_def Let_def split: if_splits)
  from len have "py_split_sep 9 (py_strip line) ! 1 \<in> set (py_split_sep 9 (py_strip line))"
    by (intro nth_mem) simp
  then have "9 \<notin> set (py_split_sep 9 (py_strip line) ! 1)"
    by (rule py_split_sep_no_sep)
  with set_py_strip s show "9 \<notin> set s" by blast
  from s show "s = py_strip (py_split_sep 9 (py_strip line) ! 1)" .
qed

lemma process_line_skip: "sentence_of_line line = None \<Longrightarrow> process_line fs st line = Inr st"
  by (simp add: process_line_def)

lemma fast_pass_append:
  "fast_pass fs st (xs @ ys) =
     (case fast_pass fs st xs of Inl e \<Rightarrow> Inl e | Inr st' \<Rightarrow> fast_pass fs st' ys)"
  by (induction xs arbitrary: st) (auto split: sum.splits)

lemma fast_pass_skip:
  "sentence_of_line line = None \<Longrightarrow>
     fast_pass fs st (before @ line # after) = fast_pass fs st (before @ after)"
  by (simp add: fast_pass_append process_line_skip split: sum.splits)

text \<open>The loop over the fast filters, when no filter raises and every name is a key.\<close>

lemma apply_fast_filters_total:
  assumes "\<forall>p\<in>set fs. \<exists>b. fst p s = Inr b" and "snd ` set fs \<subseteq> fst ` set cnt"
  shows "\<exists>cnt'. apply_fast_filters fs s cnt = Inr (cnt', list_all (\<lambda>p. fst p s = Inr True) fs) \<and>
           map fst cnt' = map fst cnt \<and>
           sum_list (map snd cnt') =
             sum_list (map snd cnt) + (if list_all (\<lambda>p. fst p s = Inr True) fs then 0 else 1)"
  using assms
proof (induction fs)
  case Nil
  then show ?case by simp
next
  case (Cons p fs)
  obtain f n where p: "p = (f, n)" by (cases p)
  from Cons.prems(1) p obtain b where b: "f s = Inr b" by auto
  show ?case
  proof (cases b)
    case True
    from Cons.prems have "\<forall>p\<in>set fs. \<exists>b. fst p s = Inr b" and "snd ` set fs \<subseteq> fst ` set cnt"
      by simp_all
    from Cons.IH [OF this] True p b show ?thesis by simp
  next
    case False
    from Cons.prems(2) p have "n \<in> fst ` set cnt" by simp
    then obtain v where v: "map_of cnt n = Some v"
      by (metis map_of_eq_None_iff not_Some_eq)
    with False b p show ?thesis
      by (simp add: dict_incr_present sum_update_incr keys_update_present)
  qed
qed

lemma keys_eq_imp:
  assumes "map fst (c' :: counters) = map fst (c :: counters)" and "A \<subseteq> fst ` set c"
  shows "A \<subseteq> fst ` set c'"
proof -
  have "set (map fst c') = set (map fst c)" by (simp only: assms(1))
  then have "fst ` set c' = fst ` set c" by (simp only: set_map)
  with assms(2) show ?thesis by simp
qed

lemma process_line_total:
  assumes "\<forall>p\<in>set fs. \<exists>b. fst p s = Inr b"
    and "snd ` set fs \<subseteq> fst ` set (filter_fail_count st)"
    and "sentence_of_line line = Some s"
  shows "\<exists>st'. process_line fs st line = Inr st' \<and>
           map fst (filter_fail_count st') = map fst (filter_fail_count st) \<and>
           final_pass st' = final_pass st \<and>
           total_lines st' = total_lines st + 1 \<and>
           survivors st' = survivors st @ filter (\<lambda>s. list_all (\<lambda>p. fst p s = Inr True) fs) [s] \<and>
           total_lines st' - sum_list (map snd (filter_fail_count st')) - int (length (survivors st')) =
             total_lines st - sum_list (map snd (filter_fail_count st)) - int (length (survivors st))"
proof -
  from apply_fast_filters_total [OF assms(1,2)]
  obtain cnt' where
    "apply_fast_filters fs s (filter_fail_count st) =
       Inr (cnt', list_all (\<lambda>p. fst p s = Inr True) fs)"
    "map fst cnt' = map fst (filter_fail_count st)"
    "sum_list (map snd cnt') = sum_list (map snd (filter_fail_count st)) +
       (if list_all (\<lambda>p. fst p s = Inr True) fs then 0 else 1)"
    by blast
  with assms(3) show ?thesis
    by (simp add: process_line_def)
qed

lemma fast_pass_total:
  assumes "\<forall>s. \<forall>p\<in>set fs. \<exists>b. fst p s = Inr b"
    and "snd ` set fs \<subseteq> fst ` set (filter_fail_count st)"
  shows "\<exists>st'. fast_pass fs st lines = Inr st' \<and>
           map fst (filter_fail_count st') = map fst (filter_fail_count st) \<and>
           final_pass st' = final_pass st \<and>
           total_lines st' = total_lines st + int (length (List.map_filter sentence_of_line lines)) \<and>
           survivors st' = survivors st @
             filter (\<lambda>s. list_all (\<lambda>p. fst p s = Inr True) fs) (List.map_filter sentence_of_line lines) \<and>
           total_lines st' - sum_list (map snd (filter_fail_count st')) - int (length (survivors st')) =
             total_lines st - sum_list (map snd (filter_fail_count st)) - int (length (survivors st))"
  using assms(2)
proof (induction lines arbitrary: st)
  case Nil
  then show ?case by simp
next
  case (Cons line lines)
  show ?case
  proof (cases "sentence_of_line line")
    case None
    with Cons.IH [OF Cons.prems] show ?thesis
      by (simp add: process_line_skip)
  next
    case (Some s)
    from assms(1) have "\<forall>p\<in>set fs. \<exists>b. fst p s = Inr b" by blast
    from process_line_total [OF this Cons.prems Some]
    obtain st1 where st1: "process_line fs st line = Inr st1"
      "map fst (filter_fail_count st1) = map fst (filter_fail_count st)"
      "final_pass st1 = final_pass st"
      "total_lines st1 = total_lines st + 1"
      "survivors st1 = survivors st @ filter (\<lambda>s. list_all (\<lambda>p. fst p s = Inr True) fs) [s]"
      "total_lines st1 - sum_list (map snd (filter_fail_count st1)) - int (length (survivors st1)) =
         total_lines st - sum_list (map snd (filter_fail_count st)) - int (length (survivors st))"
      by blast
    from st1(2) Cons.prems have "snd ` set fs \<subseteq> fst ` set (filter_fail_count st1)"
      by (rule keys_eq_imp)
    from Cons.IH [OF this]
    obtain st2 where st2: "fast_pass fs st1 lines = Inr st2"
      "map fst (filter_fail_count st2) = map fst (filter_fail_count st1)"
      "final_pass st2 = final_pass st1"
      "total_lines st2 = total_lines st1 + int (length (List.map_filter sentence_of_line lines))"
      "survivors st2 = survivors st1 @
         filter (\<lambda>s. list_all (\<lambda>p. fst p s = Inr True) fs) (List.map_filter sentence_of_line lines)"
      "total_lines st2 - sum_list (map snd (filter_fail_count st2)) - int (length (survivors st2)) =
         total_lines st1 - sum_list (map snd (filter_fail_count st1)) - int (length (survivors st1))"
      by blast
    have "fast_pass fs st (line # lines) = Inr st2"
      using st1(1) st2(1) by simp
    moreover have "map fst (filter_fail_count st2) = map fst (filter_fail_count st)"
      using st1(2) st2(2) by simp
    moreover have "final_pass st2 = final_pass st"
      using st1(3) st2(3) by simp
    moreover have "total_lines st2 =
        total_lines st + int (length (List.map_filter sentence_of_line (line # lines)))"
      using st1(4) st2(4) Some by simp
    moreover have "survivors st2 = survivors st @
        filter (\<lambda>s. list_all (\<lambda>p. fst p s = Inr True) fs)
          (List.map_filter sentence_of_line (line # lines))"
      using st1(5) st2(5) Some by simp
    moreover have "total_lines st2 - sum_list (map snd (filter_fail_count st2)) -
          int (length (survivors st2)) =
        total_lines st - sum_list (map snd (filter_fail_count st)) - int (length (survivors st))"
      using st1(6) st2(6) by simp
    ultimately show ?thesis by blast
  qed
qed

lemma spacy_pass_total:
  assumes "''proper_noun_filter'' \<in> fst ` set (filter_fail_count st)"
  shows "\<exists>st'. spacy_pass f st xs = Inr st' \<and>
           map fst (filter_fail_count st') = map fst (filter_fail_count st) \<and>
           final_pass st' = final_pass st @ filter f xs \<and>
           total_lines st' = total_lines st \<and> survivors st' = survivors st \<and>
           sum_list (map snd (filter_fail_count st')) + int (length (final_pass st')) =
             sum_list (map snd (filter_fail_count st)) + int (length (final_pass st)) + int (length xs)"
  using assms
proof (induction xs arbitrary: st)
  case Nil
  then show ?case by simp
next
  case (Cons x xs)
  show ?case
  proof (cases "f x")
    case True
    let ?st1 = "st\<lparr>final_pass := final_pass st @ [x]\<rparr>"
    from Cons.prems have "''proper_noun_filter'' \<in> fst ` set (filter_fail_count ?st1)" by simp
    from Cons.IH [OF this] True show ?thesis by auto
  next
    case False
    from Cons.prems obtain v where v: "map_of (filter_fail_count st) ''proper_noun_filter'' = Some v"
      by (metis map_of_eq_None_iff not_Some_eq)
    let ?cnt = "AList.update ''proper_noun_filter'' (v + 1) (filter_fail_count st)"
    let ?st1 = "st\<lparr>filter_fail_count := ?cnt\<rparr>"
    have k: "map fst ?cnt = map fst (filter_fail_count st)"
      using v by (rule keys_update_present)
    have s: "sum_list (map snd ?cnt) = sum_list (map snd (filter_fail_count st)) + 1"
      using v by (rule sum_update_incr)
    from keys_eq_imp [OF k, of "{''proper_noun_filter''}"] Cons.prems
    have "''proper_noun_filter'' \<in> fst ` set (filter_fail_count ?st1)"
      by simp
    from Cons.IH [OF this] obtain st' where
      "spacy_pass f ?st1 xs = Inr st'"
      "map fst (filter_fail_count st') = map fst (filter_fail_count ?st1)"
      "final_pass st' = final_pass ?st1 @ filter f xs"
      "total_lines st' = total_lines ?st1" "survivors st' = survivors ?st1"
      "sum_list (map snd (filter_fail_count st')) + int (length (final_pass st')) =
         sum_list (map snd (filter_fail_count ?st1)) + int (length (final_pass ?st1)) + int (length xs)"
      by blast
    with False v k s show ?thesis
      by (simp add: dict_incr_present)
  qed
qed

lemma fast_filters_total:
  assumes "ieee_division (truediv R)"
  shows "\<forall>p\<in>set (fast_filters R). \<exists>b. fst p s = Inr b"
  by (simp add: fast_filters_def reading_time_filter_eq [OF assms] basic_proper_noun_filter_eq)

lemma init_keys:
  "map fst (init_fail_count (fast_filters R)) =
     [''starts_with_capital'', ''has_no_parentheses'', ''ends_with_punctuation'',
      ''only_one_sentence'', ''has_no_numbers'', ''no_special_characters'',
      ''reading_time_filter'', ''max_word_count_filter'', ''basic_proper_noun_filter'',
      ''proper_noun_filter'']"
  by (simp add: init_counts)

lemma init_keys_cover:
  "snd ` set (fast_filters R) \<subseteq> fst ` set (init_fail_count (fast_filters R))"
  "''proper_noun_filter'' \<in> fst ` set (init_fail_count (fast_filters R))"
proof -
  have "set (map snd (fast_filters R)) \<subseteq> set (map fst (init_fail_count (fast_filters R)))"
    unfolding fast_filter_names init_keys by simp
  then show "snd ` set (fast_filters R) \<subseteq> fst ` set (init_fail_count (fast_filters R))"
    by (simp only: set_map)
  have "''proper_noun_filter'' \<in> set (map fst (init_fail_count (fast_filters R)))"
    unfolding init_keys by simp
  then show "''proper_noun_filter'' \<in> fst ` set (init_fail_count (fast_filters R))"
    by (simp only: set_map)
qed

text \<open>Both passes return, and what they leave in the state.\<close>

lemma run_passes_total:
  assumes "ieee_division (truediv R)"
  shows "\<exists>st. run_passes R nlp lines = Inr st \<and>
           map fst (filter_fail_count st) = map fst (init_fail_count (fast_filters R)) \<and>
           total_lines st = int (length (List.map_filter sentence_of_line lines)) \<and>
           survivors st =
             filter (\<lambda>s. list_all (\<lambda>p. fst p s = Inr True) (fast_filters R))
               (List.map_filter sentence_of_line lines) \<and>
           final_pass st = filter (create_proper_noun_filter nlp) (survivors st) \<and>
           total_lines st =
             sum_list (map snd (filter_fail_count st)) + int (length (final_pass st))"
proof -
  let ?F = "fast_filters R" and ?st0 = "init_state (fast_filters R)"
  have tot: "\<forall>s. \<forall>p\<in>set ?F. \<exists>b. fst p s = Inr b"
    using fast_filters_total [OF assms] by blast
  have k0: "snd ` set ?F \<subseteq> fst ` set (filter_fail_count ?st0)"
    using init_keys_cover(1) by (simp add: init_state_def)
  from fast_pass_total [OF tot k0, of lines]
  obtain st1 where st1: "fast_pass ?F ?st0 lines = Inr st1"
    "map fst (filter_fail_count st1) = map fst (filter_fail_count ?st0)"
    "final_pass st1 = final_pass ?st0"
    "total_lines st1 = total_lines ?st0 + int (length (List.map_filter sentence_of_line lines))"
    "survivors st1 = survivors ?st0 @
       filter (\<lambda>s. list_all (\<lambda>p. fst p s = Inr True) ?F) (List.map_filter sentence_of_line lines)"
    "total_lines st1 - sum_list (map snd (filter_fail_count st1)) - int (length (survivors st1)) =
       total_lines ?st0 - sum_list (map snd (filter_fail_count ?st0)) - int (length (survivors ?st0))"
    by blast
  have z: "sum_list (map snd (filter_fail_count ?st0)) = 0" "total_lines ?st0 = 0"
    "survivors ?st0 = []" "final_pass ?st0 = []"
    "filter_fail_count ?st0 = init_fail_count ?F"
    "sum_list (map snd (init_fail_count ?F)) = 0"
    by (simp_all add: init_state_def init_counts)
  from st1(6) have bal: "total_lines st1 =
      sum_list (map snd (filter_fail_count st1)) + int (length (survivors st1))"
    by (simp add: z)
  have "{''proper_noun_filter''} \<subseteq> fst ` set (filter_fail_count st1)"
    using keys_eq_imp [OF st1(2), of "{''proper_noun_filter''}"] init_keys_cover(2) [of R]
    by (simp add: z)
  then have k1: "''proper_noun_filter'' \<in> fst ` set (filter_fail_count st1)" by simp
  from spacy_pass_total [OF k1, of "create_proper_noun_filter nlp" "survivors st1"]
  obtain st2 where st2: "spacy_pass (create_proper_noun_filter nlp) st1 (survivors st1) = Inr st2"
    "map fst (filter_fail_count st2) = map fst (filter_fail_count st1)"
    "final_pass st2 = final_pass st1 @ filter (create_proper_noun_filter nlp) (survivors st1)"
    "total_lines st2 = total_lines st1" "survivors st2 = survivors st1"
    "sum_list (map snd (filter_fail_count st2)) + int (length (final_pass st2)) =
       sum_list (map snd (filter_fail_count st1)) + int (length (final_pass st1)) +
       int (length (survivors st1))"
    by blast
  have "run_passes R nlp lines = Inr st2"
    using st1(1) st2(1) by (simp add: run_passes_def)
  moreover have "map fst (filter_fail_count st2) = map fst (init_fail_count ?F)"
    using st1(2) st2(2) by (simp add: z)
  moreover have "total_lines st2 = int (length (List.map_filter sentence_of_line lines))"
    using st1(4) st2(4) by (simp add: z)
  moreover have "survivors st2 =
      filter (\<lambda>s. list_all (\<lambda>p. fst p s = Inr True) ?F) (List.map_filter sentence_of_line lines)"
    using st1(5) st2(5) by (simp add: z)
  moreover have "final_pass st2 = filter (create_proper_noun_filter nlp) (survivors st2)"
    using st1(3) st2(3) st2(5) by (simp add: z)
  moreover have "total_lines st2 =
      sum_list (map snd (filter_fail_count st2)) + int (length (final_pass st2))"
    using bal st2(4) st2(6) st1(3) by (simp add: z)
  ultimately show ?thesis by blast
qed

section \<open>The example, evaluated\<close>

lemma example_sentences:
  "List.map_filter sentence_of_line example_lines =
     [ascii ''Hallo der borte i dag.'', ascii ''Hei du'', ascii ''Oslo er en by.'',
      ascii ''Dette er en fin setning.'']"
  by (simp add: example_lines_def List.map_filter_def sentence_of_line_def py_strip_def
      py_lstrip_def py_rstrip_def ascii_def isspace_def Let_def)

lemmas filter_defs =
  starts_with_capital_def has_no_parentheses_def ends_with_punctuation_def
  only_one_sentence_def has_no_numbers_def no_special_characters_def pattern_class_def
  reading_time_filter_def effective_word_count_def max_word_count_filter_def
  basic_proper_noun_filter_def create_proper_noun_filter_def
  py_split_def py_strip_def py_lstrip_def py_rstrip_def isspace_def ch_def ascii_def
  ascii_runtime_def

lemma example_run:
  "run_passes ascii_runtime example_nlp example_lines =
     Inr \<lparr>filter_fail_count =
            [(''starts_with_capital'', 0), (''has_no_parentheses'', 0),
             (''ends_with_punctuation'', 1), (''only_one_sentence'', 0), (''has_no_numbers'', 0),
             (''no_special_characters'', 0), (''reading_time_filter'', 0),
             (''max_word_count_filter'', 0), (''basic_proper_noun_filter'', 0),
             (''proper_noun_filter'', 1)],
          survivors = [ascii ''Hallo der borte i dag.'', ascii ''Oslo er en by.'',
                       ascii ''Dette er en fin setning.''],
          total_lines = 4,
          final_pass = [ascii ''Hallo der borte i dag.'', ascii ''Dette er en fin setning.'']\<rparr>"
  by (simp add: run_passes_def example_lines_def example_nlp_def init_state_def init_fail_count_def
      fast_filters_def process_line_def sentence_of_line_def dict_incr_def Let_def filter_defs)

section \<open>The chunked writer\<close>

lemma py_slice_chunk:
  assumes "0 \<le> i" and "0 \<le> d"
  shows "py_slice xs i (i + d) = take (nat d) (drop (nat i) xs)"
proof (cases "i \<le> int (length xs)")
  case True
  with assms have lo: "slice_index (int (length xs)) i = nat i"
    by (simp add: slice_index_def)
  from assms have hi: "slice_index (int (length xs)) (i + d) = min (nat i + nat d) (length xs)"
    by (simp add: slice_index_def min_def) linarith
  have "take (min (nat i + nat d) (length xs) - nat i) (drop (nat i) xs) =
      take (nat d) (drop (nat i) xs)"
  proof (cases "nat i + nat d \<le> length xs")
    case True
    then show ?thesis by (simp add: min_def)
  next
    case False
    then have "length (drop (nat i) xs) \<le> nat d" by simp
    with False show ?thesis by (simp add: min_def)
  qed
  then show ?thesis by (simp add: py_slice_def lo hi)
next
  case False
  with assms have lo: "slice_index (int (length xs)) i = length xs"
    by (simp add: slice_index_def)
  from False assms have "length xs \<le> nat i" by simp
  then show ?thesis by (simp add: py_slice_def lo)
qed

lemma chunk_index:
  assumes "0 < c"
  shows "j < nat \<lceil>real n / real c\<rceil> \<longleftrightarrow> j * c < n"
proof -
  have "j < nat \<lceil>real n / real c\<rceil> \<longleftrightarrow> int j < \<lceil>real n / real c\<rceil>"
    by (rule zless_nat_eq_int_zless)
  also have "\<dots> \<longleftrightarrow> real j < real n / real c" by (simp add: less_ceiling_iff)
  also have "\<dots> \<longleftrightarrow> real j * real c < real n" using assms by (simp add: pos_less_divide_eq)
  also have "\<dots> \<longleftrightarrow> j * c < n" by (metis of_nat_less_iff of_nat_mult)
  finally show ?thesis .
qed

lemma range_up_chunks:
  assumes "0 < c" and "j \<le> nat \<lceil>real n / real c\<rceil>"
  shows "range_up (int j * int c) (int n) (int c) =
           map (\<lambda>k. int k * int c) [j ..< nat \<lceil>real n / real c\<rceil>]"
  using assms(2)
proof (induction "nat \<lceil>real n / real c\<rceil> - j" arbitrary: j)
  case 0
  then have j: "j = nat \<lceil>real n / real c\<rceil>" by linarith
  then have "\<not> j * c < n" using chunk_index [OF assms(1), of j n] by simp
  then have "\<not> int j * int c < int n"
    by (metis of_nat_less_iff of_nat_mult)
  then have "range_up (int j * int c) (int n) (int c) = []" by simp
  with j show ?case by simp
next
  case (Suc d)
  then have lt: "j < nat \<lceil>real n / real c\<rceil>" by linarith
  then have "j * c < n" using chunk_index [OF assms(1), of j n] by simp
  then have "int j * int c < int n"
    by (metis of_nat_less_iff of_nat_mult)
  then have "range_up (int j * int c) (int n) (int c) =
      (int j * int c) # range_up (int j * int c + int c) (int n) (int c)"
    using assms(1) by simp
  moreover have "int j * int c + int c = int (Suc j) * int c"
    by (simp add: algebra_simps)
  moreover have "range_up (int (Suc j) * int c) (int n) (int c) =
      map (\<lambda>k. int k * int c) [Suc j ..< nat \<lceil>real n / real c\<rceil>]"
  proof (rule Suc.hyps(1))
    from Suc.hyps(2) show "d = nat \<lceil>real n / real c\<rceil> - Suc j" by linarith
    from lt show "Suc j \<le> nat \<lceil>real n / real c\<rceil>" by linarith
  qed
  ultimately have "range_up (int j * int c) (int n) (int c) =
      (int j * int c) # map (\<lambda>k. int k * int c) [Suc j ..< nat \<lceil>real n / real c\<rceil>]"
    by (simp only:)
  with lt show ?case by (simp only: upt_conv_Cons list.map)
qed

lemma write_chunks_files:
  "write_chunks single cs final (fs, c0) starts =
     (\<lambda>i. if c0 < i \<and> i \<le> c0 + int (length starts)
           then Some (concat (map (output_line single)
                  (py_slice final (starts ! nat (i - c0 - 1)) (starts ! nat (i - c0 - 1) + cs))))
           else fs i,
      c0 + int (length starts))"
proof (induction starts arbitrary: fs c0)
  case Nil
  then show ?case by (auto simp: fun_eq_iff)
next
  case (Cons s starts)
  have aux: "nat (i - c0 - 1) - Suc 0 = nat (i - c0 - 2)" if "c0 + 1 < i" for i
    using that by linarith
  show ?case
    by (simp add: Cons.IH Let_def) (auto simp: fun_eq_iff aux)
qed

lemma concat_chunks:
  "concat (map (\<lambda>k. take c (drop (k * c) xs)) [0..<m]) = take (m * c) xs"
proof (induction m)
  case 0
  then show ?case by simp
next
  case (Suc m)
  have "take (m * c) xs @ take c (drop (m * c) xs) = take (m * c + c) xs"
    by (simp add: take_add)
  with Suc show ?case by (simp add: add.commute)
qed

lemma nat_int_mult: "nat (int k * int c) = k * c"
  by (metis nat_int of_nat_mult)

lemma py_slice_nat_chunk:
  "py_slice xs (int k * int c) (int k * int c + int c) = take c (drop (k * c) xs)"
proof -
  have "py_slice xs (int k * int c) (int k * int c + int c) =
      take (nat (int c)) (drop (nat (int k * int c)) xs)"
    by (rule py_slice_chunk) simp_all
  then show ?thesis by (simp only: nat_int_mult nat_int)
qed

lemma write_output_positive:
  assumes c: "0 < c" and m: "m = nat \<lceil>real (length final) / real c\<rceil>"
  shows "write_output single (int c) final fs =
     Inr (\<lambda>i. if 0 < i \<and> i \<le> int m
               then Some (concat (map (output_line single)
                      (take c (drop (nat (i - 1) * c) final))))
               else fs i,
          int m)"
proof -
  let ?starts = "map (\<lambda>k. int k * int c) [0..<m]"
  have starts: "range_up 0 (int (length final)) (int c) = ?starts"
    using range_up_chunks [OF c, of 0 "length final"] by (simp only: m mult_zero_left of_nat_0)
  have len: "length ?starts = m" by simp
  have nth: "?starts ! nat (i - 1) = int (nat (i - 1)) * int c" if "0 < i" "i \<le> int m" for i
  proof -
    from that have "nat (i - 1) < m" by linarith
    then show ?thesis by simp
  qed
  have "py_range 0 (int (length final)) (int c) = Inr ?starts"
    using c by (simp only: py_range_def starts) simp
  then have "write_output single (int c) final fs =
      Inr (write_chunks single (int c) final (fs, 0) ?starts)"
    by (simp only: write_output_def Let_def sum.case)
  also have "write_chunks single (int c) final (fs, 0) ?starts =
      (\<lambda>i. if 0 < i \<and> i \<le> 0 + int (length ?starts)
            then Some (concat (map (output_line single)
                   (py_slice final (?starts ! nat (i - 0 - 1)) (?starts ! nat (i - 0 - 1) + int c))))
            else fs i,
       0 + int (length ?starts))"
    by (rule write_chunks_files)
  also have "\<dots> =
      (\<lambda>i. if 0 < i \<and> i \<le> int m
            then Some (concat (map (output_line single) (take c (drop (nat (i - 1) * c) final))))
            else fs i, int m)"
  proof -
    have "(if 0 < i \<and> i \<le> 0 + int (length ?starts)
            then Some (concat (map (output_line single)
                   (py_slice final (?starts ! nat (i - 0 - 1)) (?starts ! nat (i - 0 - 1) + int c))))
            else fs i) =
          (if 0 < i \<and> i \<le> int m
            then Some (concat (map (output_line single) (take c (drop (nat (i - 1) * c) final))))
            else fs i)" for i
    proof (cases "0 < i \<and> i \<le> int m")
      case True
      then have "?starts ! nat (i - 1) = int (nat (i - 1)) * int c" using nth by blast
      then have "py_slice final (?starts ! nat (i - 0 - 1)) (?starts ! nat (i - 0 - 1) + int c) =
          take c (drop (nat (i - 1) * c) final)"
        by (simp only: diff_zero py_slice_nat_chunk)
      with True show ?thesis by (simp only: len add_0 if_True)
    next
      case False
      then show ?thesis by (simp only: len add_0 if_False)
    qed
    then show ?thesis by (simp only: len add_0)
  qed
  finally show ?thesis .
qed


lemma chunk_lengths:
  assumes "0 < c" and "k < nat \<lceil>real (length xs) / real c\<rceil>"
  shows "0 < length (take c (drop (k * c) xs))" and "length (take c (drop (k * c) xs)) \<le> c"
    and "Suc k < nat \<lceil>real (length xs) / real c\<rceil> \<Longrightarrow> length (take c (drop (k * c) xs)) = c"
proof -
  from assms have "k * c < length xs" by (simp only: chunk_index)
  with assms(1) show "0 < length (take c (drop (k * c) xs))" by simp
  show "length (take c (drop (k * c) xs)) \<le> c" by simp
  assume "Suc k < nat \<lceil>real (length xs) / real c\<rceil>"
  with assms(1) have "Suc k * c < length xs" by (simp only: chunk_index)
  then show "length (take c (drop (k * c) xs)) = c" by simp
qed

lemma concat_all_chunks:
  assumes "0 < c"
  shows "concat (map (\<lambda>k. take c (drop (k * c) xs)) [0..<nat \<lceil>real (length xs) / real c\<rceil>]) = xs"
proof -
  have "\<not> nat \<lceil>real (length xs) / real c\<rceil> * c < length xs"
    using chunk_index [OF assms, of "nat \<lceil>real (length xs) / real c\<rceil>" "length xs"] by blast
  then have "length xs \<le> nat \<lceil>real (length xs) / real c\<rceil> * c" by linarith
  then show ?thesis by (simp only: concat_chunks take_all)
qed

section \<open>Claims about the two passes and the writer\<close>

text \<open>
  Claim C9. Both passes return, the counters are the nine fast-filter counters and the
  \<open>proper_noun_filter\<close> counter, in this order, and \<open>total_lines\<close> is the sum of the ten
  counters plus the number of finally accepted sentences: every counted record is either
  charged to one filter or accepted.
\<close>

theorem conservation_of_records:
  assumes "ieee_division (truediv R)"
  shows "\<exists>st. run_passes R nlp lines = Inr st \<and>
           map fst (filter_fail_count st) =
             [''starts_with_capital'', ''has_no_parentheses'', ''ends_with_punctuation'',
              ''only_one_sentence'', ''has_no_numbers'', ''no_special_characters'',
              ''reading_time_filter'', ''max_word_count_filter'', ''basic_proper_noun_filter'',
              ''proper_noun_filter''] \<and>
           total_lines st =
             sum_list (map snd (filter_fail_count st)) + int (length (final_pass st))"
  using run_passes_total [OF assms, of nlp lines] init_keys [of R] by auto

theorem conservation_of_records_witness:
  "ieee_division (truediv ascii_runtime) \<and>
   (\<exists>st. run_passes ascii_runtime example_nlp example_lines = Inr st \<and>
      total_lines st = 4 \<and> sum_list (map snd (filter_fail_count st)) = 2 \<and>
      length (final_pass st) = 2 \<and>
      map_of (filter_fail_count st) ''ends_with_punctuation'' = Some 1 \<and>
      map_of (filter_fail_count st) ''proper_noun_filter'' = Some 1)"
proof -
  from conservation_of_records [OF ieee_ascii, of example_nlp example_lines]
  obtain st where st: "run_passes ascii_runtime example_nlp example_lines = Inr st"
    and bal: "total_lines st = sum_list (map snd (filter_fail_count st)) + int (length (final_pass st))"
    by blast
  from st have t: "total_lines st = 4" and f: "length (final_pass st) = 2"
    and e: "map_of (filter_fail_count st) ''ends_with_punctuation'' = Some 1"
    and p: "map_of (filter_fail_count st) ''proper_noun_filter'' = Some 1"
    unfolding example_run by auto
  from bal t f have "sum_list (map snd (filter_fail_count st)) = 2" by simp
  with ieee_ascii st t f e p show ?thesis by blast
qed

text \<open>
  Claim C3. The survivors of the fast pass are a subsequence of the sentences of the
  input lines, the final accepted sequence is a subsequence of the survivors and so of the
  input sentences: it is the input sentence sequence filtered, in its order, by the
  conjunction of the fast filters and the proper-noun filter.
\<close>

theorem final_pass_subsequence:
  assumes "ieee_division (truediv R)"
  shows "\<exists>st. run_passes R nlp lines = Inr st \<and>
           subseq (survivors st) (List.map_filter sentence_of_line lines) \<and>
           subseq (final_pass st) (survivors st) \<and>
           subseq (final_pass st) (List.map_filter sentence_of_line lines) \<and>
           final_pass st =
             filter (\<lambda>s. list_all (\<lambda>p. fst p s = Inr True) (fast_filters R) \<and>
                         create_proper_noun_filter nlp s)
               (List.map_filter sentence_of_line lines)"
proof -
  from run_passes_total [OF assms, of nlp lines]
  obtain st where st: "run_passes R nlp lines = Inr st"
    "survivors st =
       filter (\<lambda>s. list_all (\<lambda>p. fst p s = Inr True) (fast_filters R))
         (List.map_filter sentence_of_line lines)"
    "final_pass st = filter (create_proper_noun_filter nlp) (survivors st)"
    by blast
  have a: "subseq (survivors st) (List.map_filter sentence_of_line lines)"
    by (simp add: st(2))
  have b: "subseq (final_pass st) (survivors st)"
    by (simp add: st(3))
  from b a have c: "subseq (final_pass st) (List.map_filter sentence_of_line lines)"
    by (rule subseq_order.trans)
  have d: "final_pass st =
      filter (\<lambda>s. list_all (\<lambda>p. fst p s = Inr True) (fast_filters R) \<and>
                  create_proper_noun_filter nlp s)
        (List.map_filter sentence_of_line lines)"
    by (simp add: st(2,3) conj_commute)
  from st(1) a b c d show ?thesis by blast
qed

theorem final_pass_subsequence_witness:
  "ieee_division (truediv ascii_runtime) \<and>
   (\<exists>st. run_passes ascii_runtime example_nlp example_lines = Inr st \<and>
      final_pass st = [ascii ''Hallo der borte i dag.'', ascii ''Dette er en fin setning.'']) \<and>
   List.map_filter sentence_of_line example_lines =
     [ascii ''Hallo der borte i dag.'', ascii ''Hei du'', ascii ''Oslo er en by.'',
      ascii ''Dette er en fin setning.''] \<and>
   subseq [ascii ''Hallo der borte i dag.'', ascii ''Dette er en fin setning.'']
     (List.map_filter sentence_of_line example_lines)"
proof -
  from final_pass_subsequence [OF ieee_ascii, of example_nlp example_lines]
  obtain st where st: "run_passes ascii_runtime example_nlp example_lines = Inr st"
    and sub: "subseq (final_pass st) (List.map_filter sentence_of_line example_lines)"
    by blast
  from st have fp: "final_pass st =
      [ascii ''Hallo der borte i dag.'', ascii ''Dette er en fin setning.'']"
    unfolding example_run by auto
  from sub have "subseq [ascii ''Hallo der borte i dag.'', ascii ''Dette er en fin setning.'']
      (List.map_filter sentence_of_line example_lines)"
    unfolding fp .
  with ieee_ascii st fp example_sentences show ?thesis by blast
qed

text \<open>
  Claim C6. A line that is blank after stripping, or that has fewer than two tab-delimited
  columns, reaches a \<open>continue\<close>: the loop body leaves the state as it is (\<open>total_lines\<close>,
  the counters and the survivors), and the passes over an input with the line give what
  they give without it. A line that changes \<open>total_lines\<close> is not blank, has at least two
  columns, and adds exactly one.
\<close>

theorem skipped_lines_not_counted:
  assumes "py_strip line = [] \<or> length (py_split_sep 9 line) < 2"
  shows "sentence_of_line line = None \<and>
         process_line fs st line = Inr st \<and>
         fast_pass fs st (before @ line # after) = fast_pass fs st (before @ after) \<and>
         run_passes R nlp (before @ line # after) = run_passes R nlp (before @ after) \<and>
         (\<forall>l st'. process_line fs st l = Inr st' \<and> total_lines st' \<noteq> total_lines st \<longrightarrow>
            py_strip l \<noteq> [] \<and> 2 \<le> length (py_split_sep 9 l) \<and> total_lines st' = total_lines st + 1)"
proof -
  from assms have n: "sentence_of_line line = None" by (rule sentence_of_line_None)
  have e: "\<forall>l st'. process_line fs st l = Inr st' \<and> total_lines st' \<noteq> total_lines st \<longrightarrow>
      py_strip l \<noteq> [] \<and> 2 \<le> length (py_split_sep 9 l) \<and> total_lines st' = total_lines st + 1"
  proof (intro allI impI)
    fix l st'
    assume h: "process_line fs st l = Inr st' \<and> total_lines st' \<noteq> total_lines st"
    then obtain s where s: "sentence_of_line l = Some s"
      by (cases "sentence_of_line l") (auto simp: process_line_def)
    from h s have "total_lines st' = total_lines st + 1"
      by (auto simp: process_line_def Let_def split: sum.splits prod.splits)
    with sentence_of_line_Some(1,2) [OF s]
    show "py_strip l \<noteq> [] \<and> 2 \<le> length (py_split_sep 9 l) \<and> total_lines st' = total_lines st + 1"
      by simp
  qed
  have b: "process_line fs st line = Inr st"
    using n by (rule process_line_skip)
  have c: "fast_pass fs st (before @ line # after) = fast_pass fs st (before @ after)"
    using n by (rule fast_pass_skip)
  have d: "run_passes R nlp (before @ line # after) = run_passes R nlp (before @ after)"
    using n by (simp add: run_passes_def fast_pass_skip)
  from n b c d e show ?thesis by blast
qed

theorem skipped_lines_not_counted_witness:
  "length (py_split_sep 9 (ascii ''no tab here'' @ [10])) < 2 \<and>
   sentence_of_line (ascii ''no tab here'' @ [10]) = None \<and>
   process_line (fast_filters ascii_runtime) (init_state (fast_filters ascii_runtime))
     (ascii ''no tab here'' @ [10]) = Inr (init_state (fast_filters ascii_runtime)) \<and>
   run_passes ascii_runtime example_nlp
     ([ascii ''2'' @ [9] @ ascii ''Hei du'' @ [10]] @ (ascii ''no tab here'' @ [10]) # []) =
   run_passes ascii_runtime example_nlp ([ascii ''2'' @ [9] @ ascii ''Hei du'' @ [10]] @ [])"
proof -
  have h: "py_strip (ascii ''no tab here'' @ [10]) = [] \<or>
      length (py_split_sep 9 (ascii ''no tab here'' @ [10])) < 2"
    by (simp add: ascii_def)
  have "length (py_split_sep 9 (ascii ''no tab here'' @ [10])) < 2"
    by (simp add: ascii_def)
  with skipped_lines_not_counted [OF h, of "fast_filters ascii_runtime"
      "init_state (fast_filters ascii_runtime)" "[ascii ''2'' @ [9] @ ascii ''Hei du'' @ [10]]" "[]"
      ascii_runtime example_nlp]
  show ?thesis by blast
qed

text \<open>
  Claim C2. For a positive chunk size the writer returns, and the number of chunks is
  \<open>\<lceil>total_final / chunk_size\<rceil>\<close>. Chunk \<open>k\<close> (counted from 0) is written to file
  \<open>k + 1\<close>; it is the slice of the final sequence from \<open>k * chunk_size\<close>, it is not
  empty and has at most \<open>chunk_size\<close> sentences, exactly \<open>chunk_size\<close> unless it is the
  last one. No other file is touched, and the chunks concatenated in order are the final
  sequence.
\<close>

theorem chunked_writer_complete:
  assumes "0 < chunk_size"
  shows "\<exists>fs' m. write_output single chunk_size final fs = Inr (fs', int m) \<and>
           int m = \<lceil>real (length final) / real_of_int chunk_size\<rceil> \<and>
           (\<forall>k<m. fs' (int k + 1) =
                    Some (concat (map (output_line single)
                      (take (nat chunk_size) (drop (k * nat chunk_size) final)))) \<and>
                  take (nat chunk_size) (drop (k * nat chunk_size) final) =
                    py_slice final (int k * chunk_size) (int k * chunk_size + chunk_size) \<and>
                  0 < length (take (nat chunk_size) (drop (k * nat chunk_size) final)) \<and>
                  length (take (nat chunk_size) (drop (k * nat chunk_size) final)) \<le> nat chunk_size \<and>
                  (Suc k < m \<longrightarrow>
                     length (take (nat chunk_size) (drop (k * nat chunk_size) final)) = nat chunk_size)) \<and>
           (\<forall>i. i < 1 \<or> int m < i \<longrightarrow> fs' i = fs i) \<and>
           concat (map (\<lambda>k. take (nat chunk_size) (drop (k * nat chunk_size) final)) [0..<m]) = final"
proof -
  define c where "c = nat chunk_size"
  define m where "m = nat \<lceil>real (length final) / real c\<rceil>"
  from assms have cs: "chunk_size = int c" and c: "0 < c" by (simp_all add: c_def)
  define fs' where "fs' = (\<lambda>i. if 0 < i \<and> i \<le> int m
                 then Some (concat (map (output_line single) (take c (drop (nat (i - 1) * c) final))))
                 else fs i)"
  have w: "write_output single (int c) final fs = Inr (fs', int m)"
    unfolding fs'_def using c m_def by (rule write_output_positive)
  have "0 \<le> real (length final) / real c" by simp
  then have "- 1 < real (length final) / real c" by linarith
  then have "0 \<le> \<lceil>real (length final) / real c\<rceil>"
    by (simp only: zero_le_ceiling)
  then have ceil: "int m = \<lceil>real (length final) / real_of_int (int c)\<rceil>"
    unfolding m_def by simp
  have files: "fs' (int k + 1) =
      Some (concat (map (output_line single) (take c (drop (k * c) final))))" if "k < m" for k
    using that by (simp add: fs'_def)
  have slice: "take c (drop (k * c) final) = py_slice final (int k * int c) (int k * int c + int c)"
    for k
    by (rule py_slice_nat_chunk [symmetric])
  have lens: "0 < length (take c (drop (k * c) final)) \<and>
      length (take c (drop (k * c) final)) \<le> c \<and>
      (Suc k < m \<longrightarrow> length (take c (drop (k * c) final)) = c)" if "k < m" for k
    using chunk_lengths [OF c, of k final] that unfolding m_def by blast
  have other: "\<forall>i. i < 1 \<or> int m < i \<longrightarrow> fs' i = fs i"
    by (auto simp: fs'_def)
  have cat: "concat (map (\<lambda>k. take c (drop (k * c) final)) [0..<m]) = final"
    unfolding m_def using c by (rule concat_all_chunks)
  have "\<forall>k<m. fs' (int k + 1) =
          Some (concat (map (output_line single) (take c (drop (k * c) final)))) \<and>
        take c (drop (k * c) final) = py_slice final (int k * int c) (int k * int c + int c) \<and>
        0 < length (take c (drop (k * c) final)) \<and>
        length (take c (drop (k * c) final)) \<le> c \<and>
        (Suc k < m \<longrightarrow> length (take c (drop (k * c) final)) = c)"
    using files slice lens by blast
  with w ceil other cat show ?thesis
    unfolding cs nat_int by blast
qed

theorem chunked_writer_complete_witness:
  "(0::int) < 2 \<and>
   (\<exists>fs'. write_output True 2 [[97], [98], [99], [100], [101]] Map.empty = Inr (fs', 3) \<and>
      fs' 1 = Some [97, 10, 98, 10] \<and> fs' 2 = Some [99, 10, 100, 10] \<and>
      fs' 3 = Some [101, 10] \<and> fs' 4 = None) \<and>
   \<lceil>real (length [[97::nat], [98], [99], [100], [101]]) / real_of_int 2\<rceil> = 3"
  using chunked_writer_complete [of 2 True "[[97], [98], [99], [100], [101]]" Map.empty]
  by (simp add: write_output_def py_range_def py_slice_def slice_index_def output_line_def)

section \<open>The whole run\<close>

lemma write_output_zero: "write_output single 0 final fs = Inl ValueError"
  by (simp add: write_output_def py_range_def)

lemma write_output_negative:
  assumes "cs < 0"
  shows "write_output single cs final fs = Inr (fs, 0)"
proof -
  have "range_down 0 (int (length final)) cs = []" by simp
  with assms show ?thesis by (simp add: write_output_def py_range_def)
qed

lemma write_output_shape:
  "\<exists>M g. \<forall>fs. write_output single cs final fs =
     (if cs = 0 then Inl ValueError
      else Inr (\<lambda>i. if 0 < i \<and> i \<le> M then Some (g i) else fs i, M))"
proof -
  consider "cs = 0" | "cs < 0" | "0 < cs" by linarith
  then show ?thesis
  proof cases
    case 1
    then show ?thesis by (simp add: write_output_zero)
  next
    case 2
    have "\<forall>fs. write_output single cs final fs =
        (if cs = 0 then Inl ValueError
         else Inr (\<lambda>i. if 0 < i \<and> i \<le> 0 then Some ([] :: pystr) else fs i, 0))"
      using 2 by (auto simp: write_output_negative fun_eq_iff)
    then show ?thesis by (intro exI [of _ 0] exI [of _ "\<lambda>_. []"])
  next
    case 3
    define c where "c = nat cs"
    define m where "m = nat \<lceil>real (length final) / real c\<rceil>"
    from 3 have cs: "cs = int c" and c: "0 < c" by (simp_all add: c_def)
    have "\<forall>fs. write_output single cs final fs =
        (if cs = 0 then Inl ValueError
         else Inr (\<lambda>i. if 0 < i \<and> i \<le> int m
                then Some (concat (map (output_line single) (take c (drop (nat (i - 1) * c) final))))
                else fs i, int m))"
      using write_output_positive [OF c m_def, of single] 3 unfolding cs by simp
    then show ?thesis
      by (intro exI [of _ "int m"]
          exI [of _ "\<lambda>i. concat (map (output_line single) (take c (drop (nat (i - 1) * c) final)))"])
  qed
qed

lemma py_split_sep_plain: "sep \<notin> set a \<Longrightarrow> py_split_sep sep a = [a]"
  by (induction a) simp_all

lemma py_split_sep_field:
  "sep \<notin> set a \<Longrightarrow> py_split_sep sep (a @ sep # rest) = a # py_split_sep sep rest"
  by (induction a) (simp_all add: py_split_sep_ne split: list.splits)

lemma no_tab_constants:
  "9 \<notin> set source" "9 \<notin> set additional_rationale" "9 \<notin> set (domain @ [10])"
  by (simp_all add: source_def additional_rationale_def domain_def ascii_def)

lemma output_line_fields:
  assumes "9 \<notin> set s"
  shows "py_split_sep 9 (output_line False s) = [s, source, additional_rationale, [], domain @ [10]]"
proof -
  have "output_line False s =
      s @ 9 # (source @ 9 # (additional_rationale @ 9 # ([] @ 9 # (domain @ [10]))))"
    by (simp add: output_line_def)
  then show ?thesis
    by (simp only: py_split_sep_field py_split_sep_plain assms no_tab_constants
        empty_iff list.set not_False_eq_True)
qed

lemma final_pass_no_tab:
  assumes "ieee_division (truediv R)" and "run_passes R nlp lines = Inr st"
    and "s \<in> set (final_pass st)"
  shows "9 \<notin> set s"
proof -
  from run_passes_total [OF assms(1), of nlp lines] assms(2)
  have "survivors st =
      filter (\<lambda>s. list_all (\<lambda>p. fst p s = Inr True) (fast_filters R))
        (List.map_filter sentence_of_line lines)"
    and "final_pass st = filter (create_proper_noun_filter nlp) (survivors st)"
    by auto
  with assms(3) have "s \<in> set (List.map_filter sentence_of_line lines)" by auto
  then obtain line where "sentence_of_line line = Some s"
    by (auto simp: List.map_filter_def)
  then show ?thesis by (rule sentence_of_line_Some(3))
qed

lemma main_shape:
  "(\<exists>e. \<forall>fs. main R nlp content single cs fs = Inl e) \<or>
   (\<exists>M g tl fc tf. \<forall>fs. main R nlp content single cs fs =
      Inr \<lparr>out_files = (\<lambda>i. if 0 < i \<and> i \<le> M then Some (g i) else fs i),
           stat_total_lines = tl, stat_fail_count = fc, stat_total_final = tf,
           stat_chunk_count = M\<rparr>)"
proof (cases "run_passes R nlp (readlines content)")
  case (Inl e)
  then have "\<forall>fs. main R nlp content single cs fs = Inl e" by (simp add: main_def)
  then show ?thesis by blast
next
  case (Inr st)
  from write_output_shape [of single cs "final_pass st"]
  obtain M g where w: "\<forall>fs. write_output single cs (final_pass st) fs =
     (if cs = 0 then Inl ValueError
      else Inr (\<lambda>i. if 0 < i \<and> i \<le> M then Some (g i) else fs i, M))"
    by blast
  show ?thesis
  proof (cases "cs = 0")
    case True
    with Inr w have "\<forall>fs. main R nlp content single cs fs = Inl ValueError"
      by (simp add: main_def)
    then show ?thesis by blast
  next
    case False
    with Inr w have "\<forall>fs. main R nlp content single cs fs =
      Inr \<lparr>out_files = (\<lambda>i. if 0 < i \<and> i \<le> M then Some (g i) else fs i),
           stat_total_lines = total_lines st, stat_fail_count = filter_fail_count st,
           stat_total_final = int (length (final_pass st)), stat_chunk_count = M\<rparr>"
      by (simp add: main_def)
    then show ?thesis by blast
  qed
qed

lemma main_returns:
  assumes "ieee_division (truediv R)" and "cs \<noteq> 0"
  shows "\<exists>r. main R nlp content single cs fs = Inr r"
proof -
  from run_passes_total [OF assms(1), of nlp "readlines content"]
  obtain st where st: "run_passes R nlp (readlines content) = Inr st" by blast
  from write_output_shape [of single cs "final_pass st"] assms(2)
  obtain p where "write_output single cs (final_pass st) fs = Inr p" by auto
  with st show ?thesis by (cases p) (simp add: main_def)
qed

lemma output_line_full:
  "output_line False s = s @ [9] @ source @ [9] @ additional_rationale @ [9] @ [] @ [9] @ domain @ [10]"
  by (simp add: output_line_def)

lemma scenario_A_sentences:
  "List.map_filter sentence_of_line (readlines scenario_A) = [ascii ''Hallo der.'']"
  by (simp add: scenario_A_def readlines_def List.map_filter_def sentence_of_line_def py_strip_def
      py_lstrip_def py_rstrip_def ascii_def isspace_def Let_def)

lemma scenario_A_reading_time:
  assumes "ieee_division (truediv R)"
  shows "reading_time_filter R (ascii ''Hallo der.'') 100 2 7 = Inr False"
proof -
  have "effective_word_count (py_split (ascii ''Hallo der.'')) = 2"
    by (simp add: effective_word_count_def py_split_def ascii_def isspace_def)
  then show ?thesis by (simp add: reading_time_filter_eq [OF assms])
qed

lemma scenario_A_rejected:
  assumes "ieee_division (truediv R)"
  shows "\<not> list_all (\<lambda>p. fst p (ascii ''Hallo der.'') = Inr True) (fast_filters R)"
proof -
  have "(\<lambda>s. reading_time_filter R s 100 2 7, ''reading_time_filter'') \<in> set (fast_filters R)"
    by (simp add: fast_filters_def)
  moreover have "fst (\<lambda>s. reading_time_filter R s 100 2 7, ''reading_time_filter'')
      (ascii ''Hallo der.'') \<noteq> Inr True"
    using scenario_A_reading_time [OF assms] by simp
  ultimately show ?thesis unfolding list_all_iff by blast
qed

lemma write_output_empty: "cs \<noteq> 0 \<Longrightarrow> write_output single cs [] fs = Inr (fs, 0)"
  by (simp add: write_output_def py_range_def)

lemma scenario_A_main:
  assumes "ieee_division (truediv R)" and "cs \<noteq> 0"
  shows "\<exists>r. main R nlp scenario_A single cs fs = Inr r \<and> stat_total_lines r = 1 \<and>
           stat_total_final r = 0 \<and> stat_chunk_count r = 0 \<and> out_files r = fs"
proof -
  from run_passes_total [OF assms(1), of nlp "readlines scenario_A"]
  obtain st where st: "run_passes R nlp (readlines scenario_A) = Inr st"
    and tl: "total_lines st = int (length (List.map_filter sentence_of_line (readlines scenario_A)))"
    and sv: "survivors st =
        filter (\<lambda>s. list_all (\<lambda>p. fst p s = Inr True) (fast_filters R))
          (List.map_filter sentence_of_line (readlines scenario_A))"
    and fp: "final_pass st = filter (create_proper_noun_filter nlp) (survivors st)"
    by blast
  from sv have "survivors st = []"
    unfolding scenario_A_sentences using scenario_A_rejected [OF assms(1)] by simp
  with fp have f: "final_pass st = []" by simp
  from tl have t: "total_lines st = 1" unfolding scenario_A_sentences by simp
  from st f t assms(2) show ?thesis
    by (simp add: main_def write_output_empty)
qed

lemma main_full_mode_files:
  assumes "ieee_division (truediv R)" and "cs \<noteq> 0"
  shows "\<exists>r. main R nlp content False cs fs = Inr r \<and>
           (\<forall>k. 1 \<le> k \<and> k \<le> stat_chunk_count r \<longrightarrow>
              (\<exists>chunk. chunk \<noteq> [] \<and> (\<forall>s\<in>set chunk. 9 \<notin> set s) \<and>
                 out_files r k = Some (concat (map (output_line False) chunk))))"
proof -
  from run_passes_total [OF assms(1), of nlp "readlines content"]
  obtain st where st: "run_passes R nlp (readlines content) = Inr st" by blast
  have notab: "9 \<notin> set s" if "s \<in> set (final_pass st)" for s
    using assms(1) st that by (rule final_pass_no_tab)
  show ?thesis
  proof (cases "0 < cs")
    case False
    with assms(2) have "cs < 0" by simp
    with st show ?thesis by (auto simp: main_def write_output_negative)
  next
    case True
    define c where "c = nat cs"
    define m where "m = nat \<lceil>real (length (final_pass st)) / real c\<rceil>"
    from True have cs: "cs = int c" and c: "0 < c" by (simp_all add: c_def)
    define r where "r = \<lparr>out_files = (\<lambda>i. if 0 < i \<and> i \<le> int m
               then Some (concat (map (output_line False)
                      (take c (drop (nat (i - 1) * c) (final_pass st)))))
               else fs i),
        stat_total_lines = total_lines st, stat_fail_count = filter_fail_count st,
        stat_total_final = int (length (final_pass st)), stat_chunk_count = int m\<rparr>"
    have mr: "main R nlp content False cs fs = Inr r"
      using st write_output_positive [OF c m_def, of False fs] unfolding cs
      by (simp add: main_def r_def)
    have "\<exists>chunk. chunk \<noteq> [] \<and> (\<forall>s\<in>set chunk. 9 \<notin> set s) \<and>
        out_files r k = Some (concat (map (output_line False) chunk))"
      if k: "1 \<le> k \<and> k \<le> stat_chunk_count r" for k
    proof -
      let ?chunk = "take c (drop (nat (k - 1) * c) (final_pass st))"
      from k have km: "0 < k" "k \<le> int m" by (simp_all add: r_def)
      then have "nat (k - 1) < m" by linarith
      then have "0 < length ?chunk"
        unfolding m_def using c by (intro chunk_lengths(1))
      then have ne: "?chunk \<noteq> []" by auto
      have "set ?chunk \<subseteq> set (final_pass st)"
        by (meson order_trans set_drop_subset set_take_subset)
      with notab have nt: "\<forall>s\<in>set ?chunk. 9 \<notin> set s" by blast
      from km have "out_files r k = Some (concat (map (output_line False) ?chunk))"
        by (simp add: r_def)
      with ne nt show ?thesis by blast
    qed
    with mr show ?thesis by blast
  qed
qed

lemma example_readlines: "readlines (concat example_lines) = example_lines"
  by (simp add: readlines_def example_lines_def ascii_def)

lemma example_main_single:
  "main ascii_runtime example_nlp (concat example_lines) True 1 fs =
     Inr \<lparr>out_files = fs(1 \<mapsto> ascii ''Hallo der borte i dag.'' @ [10],
                         2 \<mapsto> ascii ''Dette er en fin setning.'' @ [10]),
          stat_total_lines = 4,
          stat_fail_count =
            [(''starts_with_capital'', 0), (''has_no_parentheses'', 0),
             (''ends_with_punctuation'', 1), (''only_one_sentence'', 0), (''has_no_numbers'', 0),
             (''no_special_characters'', 0), (''reading_time_filter'', 0),
             (''max_word_count_filter'', 0), (''basic_proper_noun_filter'', 0),
             (''proper_noun_filter'', 1)],
          stat_total_final = 2, stat_chunk_count = 2\<rparr>"
  by (simp add: main_def example_readlines example_run write_output_def py_range_def py_slice_def
      slice_index_def output_line_def)

lemma example_main_full:
  "main ascii_runtime example_nlp (concat example_lines) False 1000000 fs =
     Inr \<lparr>out_files = fs(1 \<mapsto>
              output_line False (ascii ''Hallo der borte i dag.'') @
              output_line False (ascii ''Dette er en fin setning.'')),
          stat_total_lines = 4,
          stat_fail_count =
            [(''starts_with_capital'', 0), (''has_no_parentheses'', 0),
             (''ends_with_punctuation'', 1), (''only_one_sentence'', 0), (''has_no_numbers'', 0),
             (''no_special_characters'', 0), (''reading_time_filter'', 0),
             (''max_word_count_filter'', 0), (''basic_proper_noun_filter'', 0),
             (''proper_noun_filter'', 1)],
          stat_total_final = 2, stat_chunk_count = 1\<rparr>"
  by (simp add: main_def example_readlines example_run write_output_def py_range_def py_slice_def
      slice_index_def)

text \<open>
  Claim C8. The result of a run is a function of the tagger, the input text, the toggle
  and the chunk size, and of nothing else that the run can see: started from two
  different states of the output folder, two runs fail alike or print the same
  statistics and the same number of chunks, and write files \<open>1\<close> to \<open>chunk_count\<close> with the
  same content; files of the folder with another number are left as they were. A second
  run over the folder that the first one left gives the first run's result again. With
  an accurate float division and a chunk size other than zero the run returns.
\<close>

theorem main_deterministic:
  "(\<forall>e. main R nlp content single cs fs1 = Inl e \<longleftrightarrow> main R nlp content single cs fs2 = Inl e) \<and>
   (\<forall>r1 r2. main R nlp content single cs fs1 = Inr r1 \<and> main R nlp content single cs fs2 = Inr r2 \<longrightarrow>
      stat_total_lines r1 = stat_total_lines r2 \<and> stat_fail_count r1 = stat_fail_count r2 \<and>
      stat_total_final r1 = stat_total_final r2 \<and> stat_chunk_count r1 = stat_chunk_count r2 \<and>
      (\<forall>k. 1 \<le> k \<and> k \<le> stat_chunk_count r1 \<longrightarrow>
         out_files r1 k \<noteq> None \<and> out_files r1 k = out_files r2 k) \<and>
      (\<forall>k. k < 1 \<or> stat_chunk_count r1 < k \<longrightarrow>
         out_files r1 k = fs1 k \<and> out_files r2 k = fs2 k)) \<and>
   (\<forall>r1. main R nlp content single cs fs1 = Inr r1 \<longrightarrow>
      main R nlp content single cs (out_files r1) = Inr r1) \<and>
   (ieee_division (truediv R) \<and> cs \<noteq> 0 \<longrightarrow> (\<exists>r. main R nlp content single cs fs1 = Inr r))"
proof -
  have ret: "ieee_division (truediv R) \<and> cs \<noteq> 0 \<longrightarrow> (\<exists>r. main R nlp content single cs fs1 = Inr r)"
    using main_returns by blast
  from main_shape [of R nlp content single cs]
  consider e where "\<forall>fs. main R nlp content single cs fs = Inl e"
    | M g tl fc tf where "\<forall>fs. main R nlp content single cs fs =
      Inr \<lparr>out_files = (\<lambda>i. if 0 < i \<and> i \<le> M then Some (g i) else fs i),
           stat_total_lines = tl, stat_fail_count = fc, stat_total_final = tf,
           stat_chunk_count = M\<rparr>"
    by blast
  then show ?thesis
  proof cases
    case 1
    then have "\<And>fs. main R nlp content single cs fs = Inl e" by blast
    with ret show ?thesis by (simp only: sum.inject sum.distinct) blast
  next
    case 2
    have a: "\<forall>e. main R nlp content single cs fs1 = Inl e \<longleftrightarrow>
        main R nlp content single cs fs2 = Inl e"
      by (simp add: 2)
    have b: "\<forall>r1 r2. main R nlp content single cs fs1 = Inr r1 \<and>
        main R nlp content single cs fs2 = Inr r2 \<longrightarrow>
      stat_total_lines r1 = stat_total_lines r2 \<and> stat_fail_count r1 = stat_fail_count r2 \<and>
      stat_total_final r1 = stat_total_final r2 \<and> stat_chunk_count r1 = stat_chunk_count r2 \<and>
      (\<forall>k. 1 \<le> k \<and> k \<le> stat_chunk_count r1 \<longrightarrow>
         out_files r1 k \<noteq> None \<and> out_files r1 k = out_files r2 k) \<and>
      (\<forall>k. k < 1 \<or> stat_chunk_count r1 < k \<longrightarrow>
         out_files r1 k = fs1 k \<and> out_files r2 k = fs2 k)"
      by (auto simp: 2)
    have c: "\<forall>r1. main R nlp content single cs fs1 = Inr r1 \<longrightarrow>
        main R nlp content single cs (out_files r1) = Inr r1"
      by (auto simp: 2 fun_eq_iff)
    from a b c ret show ?thesis by blast
  qed
qed

theorem main_deterministic_witness:
  "\<exists>r1 r2. main ascii_runtime example_nlp (concat example_lines) True 1 Map.empty = Inr r1 \<and>
      main ascii_runtime example_nlp (concat example_lines) True 1
        [1 \<mapsto> ascii ''stale'', 7 \<mapsto> ascii ''old''] = Inr r2 \<and>
      stat_chunk_count r1 = 2 \<and> stat_chunk_count r2 = 2 \<and>
      stat_fail_count r1 = stat_fail_count r2 \<and>
      out_files r1 1 = Some (ascii ''Hallo der borte i dag.'' @ [10]) \<and>
      out_files r2 1 = Some (ascii ''Hallo der borte i dag.'' @ [10]) \<and>
      out_files r1 2 = out_files r2 2 \<and>
      out_files r1 7 = None \<and> out_files r2 7 = Some (ascii ''old'') \<and>
      main ascii_runtime example_nlp (concat example_lines) True 1 (out_files r1) = Inr r1"
proof -
  let ?run = "main ascii_runtime example_nlp (concat example_lines) True 1"
  let ?fs2 = "[1 \<mapsto> ascii ''stale'', 7 \<mapsto> ascii ''old'']"
  have "\<exists>r1. ?run Map.empty = Inr r1 \<and> stat_chunk_count r1 = 2 \<and>
      out_files r1 1 = Some (ascii ''Hallo der borte i dag.'' @ [10]) \<and> out_files r1 7 = None"
    by (simp add: example_main_single)
  then obtain r1 where r1: "?run Map.empty = Inr r1" and c1: "stat_chunk_count r1 = 2"
    and f1: "out_files r1 1 = Some (ascii ''Hallo der borte i dag.'' @ [10])"
    and n1: "out_files r1 7 = None"
    by blast
  have "\<exists>r2. ?run ?fs2 = Inr r2 \<and> out_files r2 7 = Some (ascii ''old'')"
    by (simp add: example_main_single)
  then obtain r2 where r2: "?run ?fs2 = Inr r2" and o2: "out_files r2 7 = Some (ascii ''old'')"
    by blast
  note det = main_deterministic [of ascii_runtime example_nlp "concat example_lines" True 1
      Map.empty ?fs2]
  from det r1 r2 have st: "stat_fail_count r1 = stat_fail_count r2"
    and cc: "stat_chunk_count r1 = stat_chunk_count r2"
    and eq: "\<forall>k. 1 \<le> k \<and> k \<le> stat_chunk_count r1 \<longrightarrow>
         out_files r1 k \<noteq> None \<and> out_files r1 k = out_files r2 k"
    by blast+
  from eq c1 have e1: "out_files r1 1 = out_files r2 1" and e2: "out_files r1 2 = out_files r2 2"
    by simp_all
  from det r1 have idem: "?run (out_files r1) = Inr r1" by blast
  from r1 r2 c1 cc st f1 e1 e2 n1 o2 idem show ?thesis
    by (intro exI [of _ r1] exI [of _ r2]) simp
qed

text \<open>
  Claim C7, as the code has it. In full mode every written file is made of lines, one
  for each sentence of a non-empty chunk, and a line is the sentence, a tab, the source
  URL, a tab, the rationale, two tabs around an empty field, the domain label
  \<open>General\<close> and a line feed; split at the tabs it has exactly the five fields, since no
  sentence holds a tab. The sentence of Scenario A has two words: the reading-time filter
  rejects it, so the run on Scenario A counts one line, accepts nothing and writes no
  chunk.
\<close>

theorem full_mode_lines:
  assumes "ieee_division (truediv R)" and "chunk_size \<noteq> 0"
  shows "(\<exists>r. main R nlp content False chunk_size fs = Inr r \<and>
            (\<forall>k. 1 \<le> k \<and> k \<le> stat_chunk_count r \<longrightarrow>
               (\<exists>chunk. chunk \<noteq> [] \<and>
                  out_files r k =
                    Some (concat (map (\<lambda>s. s @ [9] @ source @ [9] @ additional_rationale @ [9] @
                                           [] @ [9] @ domain @ [10]) chunk)) \<and>
                  (\<forall>s\<in>set chunk.
                     py_split_sep 9 (s @ [9] @ source @ [9] @ additional_rationale @ [9] @
                                     [] @ [9] @ domain @ [10]) =
                       [s, source, additional_rationale, [], domain @ [10]])))) \<and>
         reading_time_filter R (ascii ''Hallo der.'') 100 2 7 = Inr False \<and>
         (\<exists>r. main R nlp scenario_A False chunk_size fs = Inr r \<and> stat_total_lines r = 1 \<and>
            stat_total_final r = 0 \<and> stat_chunk_count r = 0 \<and> out_files r = fs)"
proof -
  from main_full_mode_files [OF assms, of nlp content fs]
  obtain r where r: "main R nlp content False chunk_size fs = Inr r"
    and files: "\<forall>k. 1 \<le> k \<and> k \<le> stat_chunk_count r \<longrightarrow>
              (\<exists>chunk. chunk \<noteq> [] \<and> (\<forall>s\<in>set chunk. 9 \<notin> set s) \<and>
                 out_files r k = Some (concat (map (output_line False) chunk)))"
    by blast
  have "\<exists>chunk. chunk \<noteq> [] \<and>
          out_files r k =
            Some (concat (map (\<lambda>s. s @ [9] @ source @ [9] @ additional_rationale @ [9] @
                                   [] @ [9] @ domain @ [10]) chunk)) \<and>
          (\<forall>s\<in>set chunk.
             py_split_sep 9 (s @ [9] @ source @ [9] @ additional_rationale @ [9] @
                             [] @ [9] @ domain @ [10]) =
               [s, source, additional_rationale, [], domain @ [10]])"
    if "1 \<le> k \<and> k \<le> stat_chunk_count r" for k
  proof -
    from files that obtain chunk where ne: "chunk \<noteq> []" and nt: "\<forall>s\<in>set chunk. 9 \<notin> set s"
      and f: "out_files r k = Some (concat (map (output_line False) chunk))"
      by blast
    have "\<forall>s\<in>set chunk.
             py_split_sep 9 (s @ [9] @ source @ [9] @ additional_rationale @ [9] @
                             [] @ [9] @ domain @ [10]) =
               [s, source, additional_rationale, [], domain @ [10]]"
      using nt output_line_fields unfolding output_line_full by blast
    with ne f show ?thesis unfolding output_line_full by blast
  qed
  with r scenario_A_reading_time [OF assms(1)] scenario_A_main [OF assms, of nlp False fs]
  show ?thesis by blast
qed

theorem full_mode_lines_witness:
  "ieee_division (truediv ascii_runtime) \<and> (1000000::int) \<noteq> 0 \<and>
   (\<exists>r. main ascii_runtime example_nlp (concat example_lines) False 1000000 Map.empty = Inr r \<and>
      stat_chunk_count r = 1 \<and>
      out_files r 1 =
        Some ((ascii ''Hallo der borte i dag.'' @ [9] @ source @ [9] @ additional_rationale @ [9] @
                 [] @ [9] @ domain @ [10]) @
              (ascii ''Dette er en fin setning.'' @ [9] @ source @ [9] @ additional_rationale @ [9] @
                 [] @ [9] @ domain @ [10]))) \<and>
   py_split_sep 9 (ascii ''Hallo der borte i dag.'' @ [9] @ source @ [9] @ additional_rationale @
       [9] @ [] @ [9] @ domain @ [10]) =
     [ascii ''Hallo der borte i dag.'', source, additional_rationale, [], domain @ [10]] \<and>
   reading_time_filter ascii_runtime (ascii ''Hallo der.'') 100 2 7 = Inr False"
proof -
  have ne: "(1000000::int) \<noteq> 0" by simp
  from full_mode_lines [OF ieee_ascii ne, of example_nlp "concat example_lines" Map.empty]
  obtain r where r: "main ascii_runtime example_nlp (concat example_lines) False 1000000 Map.empty = Inr r"
    and rt: "reading_time_filter ascii_runtime (ascii ''Hallo der.'') 100 2 7 = Inr False"
    by blast
  from r have c: "stat_chunk_count r = 1"
    and f: "out_files r 1 =
        Some (output_line False (ascii ''Hallo der borte i dag.'') @
              output_line False (ascii ''Dette er en fin setning.''))"
    unfolding example_main_full by auto
  have "9 \<notin> set (ascii ''Hallo der borte i dag.'')" by (simp add: ascii_def)
  then have sp: "py_split_sep 9 (output_line False (ascii ''Hallo der borte i dag.'')) =
      [ascii ''Hallo der borte i dag.'', source, additional_rationale, [], domain @ [10]]"
    by (rule output_line_fields)
  from ieee_ascii ne r c f sp rt show ?thesis unfolding output_line_full by blast
qed

text \<open>
  On the input of Scenario A, with a tagger that finds no proper noun, the run charges
  the reading-time filter and writes no file; and the line of a sentence has no space
  before the domain label.
\<close>

theorem scenario_A_counterexample:
  "main ascii_runtime (\<lambda>_. []) scenario_A False 1000000 Map.empty =
     Inr \<lparr>out_files = Map.empty, stat_total_lines = 1,
          stat_fail_count =
            [(''starts_with_capital'', 0), (''has_no_parentheses'', 0),
             (''ends_with_punctuation'', 0), (''only_one_sentence'', 0), (''has_no_numbers'', 0),
             (''no_special_characters'', 0), (''reading_time_filter'', 1),
             (''max_word_count_filter'', 0), (''basic_proper_noun_filter'', 0),
             (''proper_noun_filter'', 0)],
          stat_total_final = 0, stat_chunk_count = 0\<rparr> \<and>
   output_line False (ascii ''Hallo der.'') \<noteq>
     ascii ''Hallo der.'' @ [9] @ source @ [9] @ additional_rationale @ [9] @ [] @ [9] @
       ascii '' General'' @ [10]"
proof -
  have "run_passes ascii_runtime (\<lambda>_. []) (readlines scenario_A) =
      Inr \<lparr>filter_fail_count =
            [(''starts_with_capital'', 0), (''has_no_parentheses'', 0),
             (''ends_with_punctuation'', 0), (''only_one_sentence'', 0), (''has_no_numbers'', 0),
             (''no_special_characters'', 0), (''reading_time_filter'', 1),
             (''max_word_count_filter'', 0), (''basic_proper_noun_filter'', 0),
             (''proper_noun_filter'', 0)],
           survivors = [], total_lines = 1, final_pass = []\<rparr>"
    by (simp add: run_passes_def scenario_A_def readlines_def init_state_def init_fail_count_def
        fast_filters_def process_line_def sentence_of_line_def dict_incr_def Let_def filter_defs)
  then have a: "main ascii_runtime (\<lambda>_. []) scenario_A False 1000000 Map.empty =
     Inr \<lparr>out_files = Map.empty, stat_total_lines = 1,
          stat_fail_count =
            [(''starts_with_capital'', 0), (''has_no_parentheses'', 0),
             (''ends_with_punctuation'', 0), (''only_one_sentence'', 0), (''has_no_numbers'', 0),
             (''no_special_characters'', 0), (''reading_time_filter'', 1),
             (''max_word_count_filter'', 0), (''basic_proper_noun_filter'', 0),
             (''proper_noun_filter'', 0)],
          stat_total_final = 0, stat_chunk_count = 0\<rparr>"
    by (simp add: main_def write_output_def py_range_def)
  have b: "output_line False (ascii ''Hallo der.'') \<noteq>
     ascii ''Hallo der.'' @ [9] @ source @ [9] @ additional_rationale @ [9] @ [] @ [9] @
       ascii '' General'' @ [10]"
    by (simp add: output_line_def domain_def ascii_def)
  from a b show ?thesis by blast
qed

end
